theory Spec2Isabelle
  imports Complex_Main
begin

section \<open>JavaScript numbers that the engine computes with\<close>

text \<open>
  The engine divides integers with the JavaScript operator \<open>/\<close>, which never throws:
  a zero divisor gives \<open>NaN\<close> (for \<open>0 / 0\<close>) or \<open>Infinity\<close>. The quotient of two
  integers is kept as an exact rational. All integers stored by the ledger are 32-bit
  columns, and for such operands the correctly rounded double quotient compares with the
  double \<open>0.8\<close> exactly as the rational quotient compares with \<open>4/5\<close>: rounding is
  monotone, and a quotient below \<open>4/5\<close> is below it by at least \<open>1 / (5 * 2^31)\<close>, far
  more than one unit in the last place. Rounding of the stored percentages and of the
  reward multiplication is not represented.
\<close>

datatype jsnum = NaN | Infinity | Fin rat

definition js_div :: "nat \<Rightarrow> int \<Rightarrow> jsnum" where
  "js_div a b =
     (if b = 0 then (if a = 0 then NaN else Infinity)
      else Fin (rat_of_nat a / rat_of_int b))"

definition js_times :: "jsnum \<Rightarrow> rat \<Rightarrow> jsnum" where
  "js_times x k = (case x of NaN \<Rightarrow> NaN | Infinity \<Rightarrow> Infinity | Fin q \<Rightarrow> Fin (q * k))"

definition js_ge :: "jsnum \<Rightarrow> rat \<Rightarrow> bool" where
  "js_ge x k = (case x of NaN \<Rightarrow> False | Infinity \<Rightarrow> True | Fin q \<Rightarrow> k \<le> q)"

section \<open>Ledger store (the Prisma schema as far as the engine uses it)\<close>

text \<open>
  Row identifiers are \<open>SERIAL\<close> primary keys, hence natural numbers. Amounts are
  \<open>INTEGER\<close> columns. Timestamps are natural numbers handed in by the caller where the
  source calls \<open>new Date()\<close>; the \<open>createdAt\<close>/\<open>updatedAt\<close> bookkeeping columns that no
  engine code reads are left out.
\<close>

record task =
  t_id :: nat
  t_amount :: int
  t_serviceType :: string
  t_reviewCount :: int
  t_done :: bool
  t_createdAt :: nat
  t_completedAt :: "nat option"

record option_row =
  o_id :: nat
  o_task_id :: nat

record submission =
  s_id :: nat
  s_option_id :: nat
  s_worker_id :: nat
  s_task_id :: nat
  s_amount :: int

record worker =
  w_id :: nat
  w_address :: string
  w_pending_amount :: int
  w_locked_amount :: int
  w_total_earned :: int
  w_tasks_completed :: int

record taskResult =
  tr_id :: nat
  tr_task_id :: nat

record optionResult =
  or_id :: nat
  or_option_id :: nat
  or_task_result_id :: nat
  or_vote_count :: nat
  or_rank :: nat
  or_percentage :: jsnum

datatype txnStatus = Processing | Success | Failure

record workerWithdrawal =
  ww_id :: nat
  ww_workerId :: nat
  ww_amount :: int
  ww_signature :: string
  ww_status :: txnStatus
  ww_processedAt :: "nat option"

record db =
  tasks :: "task list"
  options :: "option_row list"
  submissions :: "submission list"
  workers :: "worker list"
  taskResults :: "taskResult list"
  optionResults :: "optionResult list"
  workerWithdrawals :: "workerWithdrawal list"

text \<open>
  Everything the source can throw on the paths modelled here. \<open>P2002\<close> and \<open>P2025\<close> are
  the Prisma codes for a unique-constraint violation and for an update of a missing row;
  \<open>PrismaValidation\<close> is the client's rejection of a non-integer value for an integer
  column; \<open>NullDereference\<close> is the \<open>TypeError\<close> of reading \<open>.address\<close> of \<open>null\<close>.
\<close>

datatype error =
    TaskNotFound
  | NotEnoughSubmissions
  | P2002
  | P2025
  | PrismaValidation
  | NullDereference
  | PayoutFailed

text \<open>A fresh \<open>SERIAL\<close> identifier: larger than every identifier in the table.\<close>

definition fresh_id :: "nat list \<Rightarrow> nat" where
  "fresh_id ids = Suc (fold max ids 0)"

section \<open>Pricing oracle (\<open>services/solana.js\<close>)\<close>

text \<open>
  The amounts come from the process environment, which is not part of the repository;
  they are parameters, already parsed (\<open>parseInt\<close>, \<open>parseFloat\<close>).
\<close>

record env =
  MARKETING_IMAGES_200_PRICE :: int
  MARKETING_IMAGES_500_PRICE :: int
  YOUTUBE_THUMBNAILS_200_PRICE :: int
  YOUTUBE_THUMBNAILS_500_PRICE :: int
  VIDEOS_100_PRICE :: int
  VIDEOS_300_PRICE :: int
  VIDEO_MAJORITY_REWARD :: int
  IMAGE_THUMBNAIL_MAJORITY_REWARD :: int
  SECOND_PLACE_MULTIPLIER :: rat
  THIRD_PLACE_MULTIPLIER :: rat

definition priceMap :: "env \<Rightarrow> string \<Rightarrow> (int \<Rightarrow> int option) option" where
  "priceMap e serviceType =
     (if serviceType = ''MARKETING_IMAGES'' then
        Some [200 \<mapsto> MARKETING_IMAGES_200_PRICE e, 500 \<mapsto> MARKETING_IMAGES_500_PRICE e]
      else if serviceType = ''YOUTUBE_THUMBNAILS'' then
        Some [200 \<mapsto> YOUTUBE_THUMBNAILS_200_PRICE e, 500 \<mapsto> YOUTUBE_THUMBNAILS_500_PRICE e]
      else if serviceType = ''VIDEOS'' then
        Some [100 \<mapsto> VIDEOS_100_PRICE e, 300 \<mapsto> VIDEOS_300_PRICE e]
      else None)"

text \<open>\<open>priceMap[serviceType]?.[reviewCount] || 0\<close>: a missing entry and a zero entry both give 0.\<close>

definition getServicePrice :: "env \<Rightarrow> string \<Rightarrow> int \<Rightarrow> int" where
  "getServicePrice e serviceType reviewCount =
     (case priceMap e serviceType of
        None \<Rightarrow> 0
      | Some tiers \<Rightarrow>
          (case tiers reviewCount of
             None \<Rightarrow> 0
           | Some price \<Rightarrow> if price = 0 then 0 else price))"

text \<open>
  The caller at the task-creation boundary (\<open>POST /upload\<close>): a falsy price is answered
  with status 400 before any payment is verified or task is created.
\<close>

datatype uploadGate = InvalidCombination400 | ExpectedAmount int

definition uploadPriceCheck :: "env \<Rightarrow> string \<Rightarrow> int \<Rightarrow> uploadGate" where
  "uploadPriceCheck e serviceType reviewCount =
     (let expectedAmount = getServicePrice e serviceType reviewCount
      in if expectedAmount = 0 then InvalidCombination400 else ExpectedAmount expectedAmount)"

definition calculateWorkerReward :: "env \<Rightarrow> string \<Rightarrow> int \<Rightarrow> int" where
  "calculateWorkerReward e serviceType rank =
     (let baseReward =
            (if serviceType = ''VIDEOS'' then VIDEO_MAJORITY_REWARD e
             else IMAGE_THUMBNAIL_MAJORITY_REWARD e)
      in if rank = 1 then baseReward
         else if rank = 2 then \<lfloor>rat_of_int baseReward * SECOND_PLACE_MULTIPLIER e\<rfloor>
         else if rank = 3 then \<lfloor>rat_of_int baseReward * THIRD_PLACE_MULTIPLIER e\<rfloor>
         else 0)"

section \<open>Payout dispatcher\<close>

text \<open>
  A dispatcher is called with the number of calls made before it in the same request,
  the wallet address and the amount, and returns a transaction reference or fails. The
  shipped one, \<open>sendReward\<close>, draws 64 random bytes and encodes them; \<open>rnd\<close> is the
  source of the bytes of the n-th call and \<open>bs58\<close> the encoder of the external library.
\<close>

type_synonym dispatcher = "nat \<Rightarrow> string \<Rightarrow> int \<Rightarrow> error + string"

definition sendReward :: "(nat list \<Rightarrow> string) \<Rightarrow> (nat \<Rightarrow> nat \<Rightarrow> nat) \<Rightarrow> dispatcher" where
  "sendReward bs58 rnd n workerAddress amount =
     (let mockSignature = bs58 (map (\<lambda>i. rnd n i mod 256) [0..<64])
      in Inr mockSignature)"

section \<open>Consensus engine (\<open>ConsensusService\<close>)\<close>

subsection \<open>Store reads\<close>

text \<open>\<open>task.findUnique({ where: { id }, include: { submissions, options } })\<close>\<close>

record taskWithRelations =
  tw_task :: task
  tw_submissions :: "submission list"
  tw_options :: "option_row list"

definition taskSubmissions :: "db \<Rightarrow> nat \<Rightarrow> submission list" where
  "taskSubmissions d taskId = filter (\<lambda>s. s_task_id s = taskId) (submissions d)"

definition taskOptions :: "db \<Rightarrow> nat \<Rightarrow> option_row list" where
  "taskOptions d taskId = filter (\<lambda>opt. o_task_id opt = taskId) (options d)"

definition task_findUnique :: "db \<Rightarrow> nat \<Rightarrow> taskWithRelations option" where
  "task_findUnique d taskId =
     (case find (\<lambda>t. t_id t = taskId) (tasks d) of
        None \<Rightarrow> None
      | Some t \<Rightarrow>
          Some \<lparr>tw_task = t,
                tw_submissions = taskSubmissions d taskId,
                tw_options = taskOptions d taskId\<rparr>)"

definition worker_findUnique :: "db \<Rightarrow> nat \<Rightarrow> worker option" where
  "worker_findUnique d workerId = find (\<lambda>w. w_id w = workerId) (workers d)"

subsection \<open>\<open>checkTaskCompletion\<close>\<close>

definition MINIMUM_SUBMISSIONS_THRESHOLD :: rat where
  "MINIMUM_SUBMISSIONS_THRESHOLD = 8 / 10"

record taskStatus =
  ts_taskId :: nat
  requiredSubmissions :: int
  currentSubmissions :: nat
  completionPercentage :: jsnum
  isReadyForConsensus :: bool
  ts_task :: taskWithRelations

definition checkTaskCompletion :: "db \<Rightarrow> nat \<Rightarrow> error + taskStatus" where
  "checkTaskCompletion d taskId =
     (case task_findUnique d taskId of
        None \<Rightarrow> Inl TaskNotFound
      | Some tw \<Rightarrow>
          (let required = t_reviewCount (tw_task tw);
               current = length (tw_submissions tw);
               pct = js_div current required
           in Inr \<lparr>ts_taskId = taskId,
                   requiredSubmissions = required,
                   currentSubmissions = current,
                   completionPercentage = pct,
                   isReadyForConsensus = js_ge pct MINIMUM_SUBMISSIONS_THRESHOLD,
                   ts_task = tw\<rparr>))"

subsection \<open>The vote tally object\<close>

text \<open>
  \<open>voteCounts\<close> is a plain JavaScript object keyed by option id. Its keys are array
  indices (non-negative integers), and \<open>Object.values\<close> enumerates such keys in ascending
  numeric order, whatever the order of insertion. The object is therefore an association
  list kept in ascending key order; assigning to an existing key replaces the value in
  place. An entry's copy of the option row (\<open>option: option\<close>) is never read and is
  left out.
\<close>

record tally =
  optionId :: nat
  count :: nat
  voters :: "nat list"

fun obj_set :: "nat \<Rightarrow> 'v \<Rightarrow> (nat \<times> 'v) list \<Rightarrow> (nat \<times> 'v) list" where
  "obj_set k v [] = [(k, v)]"
| "obj_set k v ((k', v') # kvs) =
     (if k = k' then (k, v) # kvs
      else if k < k' then (k, v) # (k', v') # kvs
      else (k', v') # obj_set k v kvs)"

definition obj_get :: "(nat \<times> 'v) list \<Rightarrow> nat \<Rightarrow> 'v option" where
  "obj_get obj k = map_of obj k"

definition obj_values :: "(nat \<times> 'v) list \<Rightarrow> 'v list" where
  "obj_values obj = map snd obj"

text \<open>
  What holds of \<open>voteCounts\<close> throughout: ascending distinct keys, and every entry filed
  under its own option id.
\<close>

definition wf_obj :: "(nat \<times> tally) list \<Rightarrow> bool" where
  "wf_obj obj \<longleftrightarrow>
     sorted_wrt (<) (map fst obj) \<and> (\<forall>p \<in> set obj. optionId (snd p) = fst p)"

definition initVoteCounts :: "option_row list \<Rightarrow> (nat \<times> tally) list" where
  "initVoteCounts opts =
     fold (\<lambda>opt voteCounts.
             obj_set (o_id opt) \<lparr>optionId = o_id opt, count = 0, voters = []\<rparr> voteCounts)
          opts []"

definition tallyVote :: "submission \<Rightarrow> (nat \<times> tally) list \<Rightarrow> (nat \<times> tally) list" where
  "tallyVote s voteCounts =
     (case obj_get voteCounts (s_option_id s) of
        None \<Rightarrow> voteCounts
      | Some entry \<Rightarrow>
          obj_set (s_option_id s)
            (entry\<lparr>count := count entry + 1, voters := voters entry @ [s_worker_id s]\<rparr>)
            voteCounts)"

definition tallyVotes :: "submission list \<Rightarrow> (nat \<times> tally) list \<Rightarrow> (nat \<times> tally) list" where
  "tallyVotes subs voteCounts = fold tallyVote subs voteCounts"

subsection \<open>\<open>calculateWorkerRewards\<close> and \<open>calculateConsensus\<close>\<close>

record ranked = tally +
  rank :: nat
  percentage :: jsnum

record workerReward =
  wr_workerId :: nat
  wr_optionId :: nat
  wr_rank :: nat
  wr_amount :: int
  wr_percentage :: jsnum

text \<open>
  \<open>sort((a, b) => b.count - a.count)\<close> is a stable sort (ECMAScript 2019) by descending
  count: an insertion sort on the key \<open>- count\<close>.
\<close>

definition sortByCountDesc :: "tally list \<Rightarrow> tally list" where
  "sortByCountDesc xs = sort_key (\<lambda>r. - int (count r)) xs"

definition rankResult :: "nat \<Rightarrow> nat \<Rightarrow> tally \<Rightarrow> ranked" where
  "rankResult totalSubs index result =
     \<lparr>optionId = optionId result, count = count result, voters = voters result,
      rank = index + 1,
      percentage = js_times (js_div (count result) (int totalSubs)) 100\<rparr>"

definition rankResults :: "nat \<Rightarrow> tally list \<Rightarrow> ranked list" where
  "rankResults totalSubs xs =
     map (\<lambda>(index, result). rankResult totalSubs index result) (enumerate 0 xs)"

text \<open>The inner loop: one reward entry for every voter of the option at position \<open>index\<close>.\<close>

definition rewardVoters :: "env \<Rightarrow> task \<Rightarrow> nat \<Rightarrow> ranked \<Rightarrow> workerReward list" where
  "rewardVoters e t index result =
     (let rank = index + 1;
          rewardAmount = calculateWorkerReward e (t_serviceType t) (int rank)
      in map (\<lambda>workerId.
                \<lparr>wr_workerId = workerId, wr_optionId = optionId result,
                 wr_rank = rank, wr_amount = rewardAmount,
                 wr_percentage = percentage result\<rparr>)
             (voters result))"

definition calculateWorkerRewards :: "env \<Rightarrow> task \<Rightarrow> ranked list \<Rightarrow> workerReward list" where
  "calculateWorkerRewards e t consensusResults =
     (let rewardableOptions = take 3 consensusResults
      in concat (map (\<lambda>(index, result). rewardVoters e t index result)
                     (enumerate 0 rewardableOptions)))"

record consensus =
  c_taskId :: nat
  totalSubmissions :: nat
  results :: "ranked list"
  workerRewards :: "workerReward list"

definition calculateConsensus :: "env \<Rightarrow> db \<Rightarrow> nat \<Rightarrow> error + consensus" where
  "calculateConsensus e d taskId =
     (case checkTaskCompletion d taskId of
        Inl err \<Rightarrow> Inl err
      | Inr status \<Rightarrow>
          if \<not> isReadyForConsensus status then Inl NotEnoughSubmissions
          else
            (let tw = ts_task status;
                 voteCounts = tallyVotes (tw_submissions tw) (initVoteCounts (tw_options tw));
                 sortedResults =
                   rankResults (length (tw_submissions tw)) (sortByCountDesc (obj_values voteCounts))
             in Inr \<lparr>c_taskId = taskId,
                     totalSubmissions = length (tw_submissions tw),
                     results = sortedResults,
                     workerRewards = calculateWorkerRewards e (tw_task tw) sortedResults\<rparr>))"

section \<open>Ledger writes and transactions\<close>

text \<open>
  A request leaves three things behind: the calls it made to the payout dispatcher (wallet
  address and amount, in order), the store, and what it returned or threw.
\<close>

type_synonym call = "string \<times> int"

record 'a outcome =
  calls :: "call list"
  store :: db
  returned :: 'a

text \<open>
  \<open>prisma.$transaction(async (tx) => ...)\<close>: when the body throws, every write of the body
  is rolled back and the error is rethrown; calls already made to the dispatcher are
  external and stay made.
\<close>

definition transaction ::
  "db \<Rightarrow> (db \<Rightarrow> call list \<times> (error + db \<times> 'a)) \<Rightarrow> (error + 'a) outcome" where
  "transaction d body =
     (case body d of
        (cs, Inl err) \<Rightarrow> \<lparr>calls = cs, store = d, returned = Inl err\<rparr>
      | (cs, Inr (d', x)) \<Rightarrow> \<lparr>calls = cs, store = d', returned = Inr x\<rparr>)"

text \<open>\<open>update({ where: { id }, data })\<close> throws \<open>P2025\<close> when no row has the id.\<close>

definition task_update :: "db \<Rightarrow> nat \<Rightarrow> (task \<Rightarrow> task) \<Rightarrow> error + db" where
  "task_update d taskId f =
     (if \<exists>t \<in> set (tasks d). t_id t = taskId
      then Inr (d\<lparr>tasks := map (\<lambda>t. if t_id t = taskId then f t else t) (tasks d)\<rparr>)
      else Inl P2025)"

definition worker_update :: "db \<Rightarrow> nat \<Rightarrow> (worker \<Rightarrow> worker) \<Rightarrow> error + db" where
  "worker_update d workerId f =
     (if \<exists>w \<in> set (workers d). w_id w = workerId
      then Inr (d\<lparr>workers := map (\<lambda>w. if w_id w = workerId then f w else w) (workers d)\<rparr>)
      else Inl P2025)"

definition workerWithdrawal_update ::
  "db \<Rightarrow> nat \<Rightarrow> (workerWithdrawal \<Rightarrow> workerWithdrawal) \<Rightarrow> error + db" where
  "workerWithdrawal_update d withdrawalId f =
     (if \<exists>x \<in> set (workerWithdrawals d). ww_id x = withdrawalId
      then Inr (d\<lparr>workerWithdrawals :=
                    map (\<lambda>x. if ww_id x = withdrawalId then f x else x) (workerWithdrawals d)\<rparr>)
      else Inl P2025)"

text \<open>\<open>TaskResult_task_id_key\<close>: a unique index on \<open>TaskResult.task_id\<close>.\<close>

definition taskResult_create :: "db \<Rightarrow> nat \<Rightarrow> error + db \<times> taskResult" where
  "taskResult_create d taskId =
     (if \<exists>r \<in> set (taskResults d). tr_task_id r = taskId then Inl P2002
      else (let row = \<lparr>tr_id = fresh_id (map tr_id (taskResults d)), tr_task_id = taskId\<rparr>
            in Inr (d\<lparr>taskResults := taskResults d @ [row]\<rparr>, row)))"

definition optionResult_create :: "nat \<Rightarrow> ranked \<Rightarrow> db \<Rightarrow> db" where
  "optionResult_create taskResultId result d =
     d\<lparr>optionResults := optionResults d @
          [\<lparr>or_id = fresh_id (map or_id (optionResults d)),
            or_option_id = optionId result,
            or_task_result_id = taskResultId,
            or_vote_count = count result,
            or_rank = rank result,
            or_percentage = percentage result\<rparr>]\<rparr>"

definition workerWithdrawal_create :: "db \<Rightarrow> nat \<Rightarrow> int \<Rightarrow> db \<times> workerWithdrawal" where
  "workerWithdrawal_create d workerId amount =
     (let row = \<lparr>ww_id = fresh_id (map ww_id (workerWithdrawals d)),
                 ww_workerId = workerId, ww_amount = amount,
                 ww_signature = ''pending'', ww_status = Processing,
                 ww_processedAt = None\<rparr>
      in (d\<lparr>workerWithdrawals := workerWithdrawals d @ [row]\<rparr>, row))"

text \<open>Modelled from the spec: the migration that creates the \<open>Submission\<close> table is
  not among the sources. The spec gives the store a "unique constraint on (task-id,
  worker-id) for Submission", and the handler's \<open>P2002\<close> branch ("worker already
  submitted for this task") relies on it: an insert of a second row for the pair throws
  \<open>P2002\<close>.
\<close>

definition submission_create :: "db \<Rightarrow> nat \<Rightarrow> nat \<Rightarrow> nat \<Rightarrow> int \<Rightarrow> error + db \<times> submission" where
  "submission_create d optId workerId taskId amount =
     (if \<exists>s \<in> set (submissions d). s_task_id s = taskId \<and> s_worker_id s = workerId then Inl P2002
      else (let row = \<lparr>s_id = fresh_id (map s_id (submissions d)), s_option_id = optId,
                       s_worker_id = workerId, s_task_id = taskId, s_amount = amount\<rparr>
            in Inr (d\<lparr>submissions := submissions d @ [row]\<rparr>, row)))"

section \<open>\<open>processTaskCompletion\<close>\<close>

record rewardTransaction =
  rt_workerId :: nat
  rt_amount :: int
  rt_signature :: string
  rt_rank :: nat

record settlement =
  st_taskId :: nat
  st_consensus :: consensus
  rewardTransactions :: "rewardTransaction list"
  st_completedAt :: nat

text \<open>
  The reward loop of the transaction body. For each reward it credits the worker, reads
  the worker back for the address, and awaits the dispatcher, all on the transaction
  client \<open>tx\<close>; \<open>cs\<close> are the dispatcher calls made so far and \<open>acc\<close> the
  \<open>rewardTransactions\<close> pushed so far.
\<close>

fun distributeRewards ::
  "dispatcher \<Rightarrow> db \<Rightarrow> call list \<Rightarrow> rewardTransaction list \<Rightarrow> workerReward list
     \<Rightarrow> call list \<times> (error + db \<times> rewardTransaction list)" where
  "distributeRewards send d cs acc [] = (cs, Inr (d, acc))"
| "distributeRewards send d cs acc (reward # rest) =
     (case worker_update d (wr_workerId reward)
             (\<lambda>w. w\<lparr>w_pending_amount := w_pending_amount w + wr_amount reward,
                     w_total_earned := w_total_earned w + wr_amount reward,
                     w_tasks_completed := w_tasks_completed w + 1\<rparr>) of
        Inl err \<Rightarrow> (cs, Inl err)
      | Inr d1 \<Rightarrow>
          (case worker_findUnique d1 (wr_workerId reward) of
             None \<Rightarrow> (cs, Inl NullDereference)
           | Some w \<Rightarrow>
               (case send (length cs) (w_address w) (wr_amount reward) of
                  Inl err \<Rightarrow> (cs @ [(w_address w, wr_amount reward)], Inl err)
                | Inr rewardTx \<Rightarrow>
                    distributeRewards send d1 (cs @ [(w_address w, wr_amount reward)])
                      (acc @ [\<lparr>rt_workerId = wr_workerId reward, rt_amount = wr_amount reward,
                               rt_signature = rewardTx, rt_rank = wr_rank reward\<rparr>])
                      rest)))"

definition settlementBody ::
  "dispatcher \<Rightarrow> nat \<Rightarrow> nat \<Rightarrow> consensus \<Rightarrow> db \<Rightarrow> call list \<times> (error + db \<times> settlement)" where
  "settlementBody send now taskId c d =
     (case task_update d taskId (\<lambda>t. t\<lparr>t_done := True, t_completedAt := Some now\<rparr>) of
        Inl err \<Rightarrow> ([], Inl err)
      | Inr d1 \<Rightarrow>
          (case taskResult_create d1 taskId of
             Inl err \<Rightarrow> ([], Inl err)
           | Inr (d2, taskResult) \<Rightarrow>
               (let d3 = fold (optionResult_create (tr_id taskResult)) (results c) d2
                in case distributeRewards send d3 [] [] (workerRewards c) of
                     (cs, Inl err) \<Rightarrow> (cs, Inl err)
                   | (cs, Inr (d4, rts)) \<Rightarrow>
                       (cs, Inr (d4, \<lparr>st_taskId = taskId, st_consensus = c,
                                      rewardTransactions = rts, st_completedAt = now\<rparr>)))))"

definition processTaskCompletion ::
  "env \<Rightarrow> dispatcher \<Rightarrow> nat \<Rightarrow> db \<Rightarrow> nat \<Rightarrow> (error + settlement) outcome" where
  "processTaskCompletion e send now d taskId =
     (case calculateConsensus e d taskId of
        Inl err \<Rightarrow> \<lparr>calls = [], store = d, returned = Inl err\<rparr>
      | Inr c \<Rightarrow> transaction d (settlementBody send now taskId c))"

section \<open>Worker withdrawal (\<open>POST /payout\<close> in \<open>routers/worker.js\<close>)\<close>

datatype payoutResponse =
    ValidationFailed400
  | WorkerNotFound404
  | NoFunds400
  | InsufficientBalance400
  | TransactionFailed500
  | PayoutProcessingFailed500
  | PayoutSuccess200 nat int

text \<open>
  The first transaction: move the amount from pending to locked and create the
  withdrawal row in state \<open>Processing\<close>.
\<close>

definition beginWithdrawal ::
  "nat \<Rightarrow> int \<Rightarrow> db \<Rightarrow> call list \<times> (error + db \<times> workerWithdrawal)" where
  "beginWithdrawal workerId payoutAmount tx =
     (case worker_update tx workerId
             (\<lambda>w. w\<lparr>w_pending_amount := w_pending_amount w - payoutAmount,
                     w_locked_amount := w_locked_amount w + payoutAmount\<rparr>) of
        Inl err \<Rightarrow> ([], Inl err)
      | Inr tx1 \<Rightarrow>
          (case workerWithdrawal_create tx1 workerId payoutAmount of
             (tx2, withdrawal) \<Rightarrow> ([], Inr (tx2, withdrawal))))"

text \<open>
  The \<open>catch (txError)\<close> branch: one transaction marks the withdrawal \<open>Failure\<close> and
  moves the amount back from locked to pending; the handler then answers 500
  "Transaction failed, funds returned to pending balance". An error inside this
  transaction rolls it back and reaches the outer \<open>catch\<close>.
\<close>

definition revertBody ::
  "nat \<Rightarrow> nat \<Rightarrow> nat \<Rightarrow> int \<Rightarrow> db \<Rightarrow> call list \<times> (error + db \<times> unit)" where
  "revertBody now withdrawalId workerId payoutAmount tx =
     (case workerWithdrawal_update tx withdrawalId
             (\<lambda>x. x\<lparr>ww_status := Failure, ww_processedAt := Some now\<rparr>) of
        Inl err \<Rightarrow> ([], Inl err)
      | Inr tx1 \<Rightarrow>
          (case worker_update tx1 workerId
                  (\<lambda>w. w\<lparr>w_pending_amount := w_pending_amount w + payoutAmount,
                          w_locked_amount := w_locked_amount w - payoutAmount\<rparr>) of
             Inl err \<Rightarrow> ([], Inl err)
           | Inr tx2 \<Rightarrow> ([], Inr (tx2, ()))))"

definition revertWithdrawal ::
  "call list \<Rightarrow> nat \<Rightarrow> db \<Rightarrow> nat \<Rightarrow> nat \<Rightarrow> int \<Rightarrow> payoutResponse outcome" where
  "revertWithdrawal cs now d withdrawalId workerId payoutAmount =
     (let out = transaction d (revertBody now withdrawalId workerId payoutAmount)
      in case returned out of
           Inl err \<Rightarrow> \<lparr>calls = cs, store = store out, returned = PayoutProcessingFailed500\<rparr>
         | Inr u \<Rightarrow> \<lparr>calls = cs, store = store out, returned = TransactionFailed500\<rparr>)"

text \<open>
  The part of the handler after the first transaction: the \<open>try\<close> block holds the
  dispatcher call and the two updates that follow it, so an error of any of the three
  takes the \<open>catch\<close> branch.
\<close>

definition settleWithdrawal ::
  "dispatcher \<Rightarrow> nat \<Rightarrow> db \<Rightarrow> nat \<Rightarrow> worker \<Rightarrow> workerWithdrawal \<Rightarrow> int
     \<Rightarrow> payoutResponse outcome" where
  "settleWithdrawal send now d workerId worker result payoutAmount =
     (let cs = [(w_address worker, payoutAmount)]
      in case send 0 (w_address worker) payoutAmount of
           Inl txError \<Rightarrow>
             revertWithdrawal cs now d (ww_id result) workerId payoutAmount
         | Inr txSignature \<Rightarrow>
             (case workerWithdrawal_update d (ww_id result)
                     (\<lambda>x. x\<lparr>ww_signature := txSignature, ww_status := Success,
                             ww_processedAt := Some now\<rparr>) of
                Inl txError \<Rightarrow>
                  revertWithdrawal cs now d (ww_id result) workerId payoutAmount
              | Inr d2 \<Rightarrow>
                  (case worker_update d2 workerId
                          (\<lambda>w. w\<lparr>w_locked_amount := w_locked_amount w - payoutAmount\<rparr>) of
                     Inl txError \<Rightarrow>
                       revertWithdrawal cs now d2 (ww_id result) workerId payoutAmount
                   | Inr d3 \<Rightarrow>
                       \<lparr>calls = cs, store = d3,
                        returned = PayoutSuccess200 (ww_id result) payoutAmount\<rparr>)))"

text \<open>
  \<open>amount\<close> is the validated body field (\<open>z.number().int().positive().optional()\<close>):
  \<open>None\<close> when absent.
\<close>

definition payoutHandler ::
  "dispatcher \<Rightarrow> nat \<Rightarrow> db \<Rightarrow> nat \<Rightarrow> int option \<Rightarrow> payoutResponse outcome" where
  "payoutHandler send now d workerId amount =
     (if (case amount of None \<Rightarrow> False | Some a \<Rightarrow> a \<le> 0)
      then \<lparr>calls = [], store = d, returned = ValidationFailed400\<rparr>
      else
        (case worker_findUnique d workerId of
           None \<Rightarrow> \<lparr>calls = [], store = d, returned = WorkerNotFound404\<rparr>
         | Some worker \<Rightarrow>
             (let payoutAmount = (case amount of None \<Rightarrow> w_pending_amount worker | Some a \<Rightarrow> a)
              in if payoutAmount \<le> 0
                 then \<lparr>calls = [], store = d, returned = NoFunds400\<rparr>
                 else if payoutAmount > w_pending_amount worker
                 then \<lparr>calls = [], store = d, returned = InsufficientBalance400\<rparr>
                 else
                   (let begun = transaction d (beginWithdrawal workerId payoutAmount)
                    in case returned begun of
                         Inl err \<Rightarrow>
                           \<lparr>calls = [], store = store begun, returned = PayoutProcessingFailed500\<rparr>
                       | Inr result \<Rightarrow>
                           settleWithdrawal send now (store begun) workerId worker result
                             payoutAmount))))"

section \<open>Submission (\<open>POST /submission\<close> in \<open>routers/worker.js\<close>)\<close>

text \<open>
  \<open>getNextTask\<close>: the oldest open task for which the worker has no submission
  (\<open>findFirst\<close> with \<open>orderBy: { createdAt: 'asc' }\<close>).
\<close>

definition getNextTask :: "db \<Rightarrow> nat \<Rightarrow> taskWithRelations option" where
  "getNextTask d userId =
     (case sort_key t_createdAt
             (filter (\<lambda>t. \<not> t_done t \<and>
                           \<not> (\<exists>s \<in> set (submissions d).
                                 s_task_id s = t_id t \<and> s_worker_id s = userId))
                     (tasks d)) of
        [] \<Rightarrow> None
      | t # rest \<Rightarrow>
          Some \<lparr>tw_task = t,
                tw_submissions = taskSubmissions d (t_id t),
                tw_options = taskOptions d (t_id t)\<rparr>)"

datatype submissionResponse =
    InvalidTask400
  | InvalidOption400
  | AlreadySubmitted400
  | SubmitFailed500
  | SubmissionCreated200 submission bool

text \<open>
  The transaction of the handler: insert the submission and credit the provisional
  amount to the worker's pending balance. \<open>baseReward\<close> is
  \<open>Math.floor(task.amount / task.reviewCount)\<close>; with a zero \<open>reviewCount\<close> it is not
  an integer and the insert is rejected.
\<close>

definition submissionBody ::
  "nat \<Rightarrow> nat \<Rightarrow> nat \<Rightarrow> int option \<Rightarrow> db \<Rightarrow> call list \<times> (error + db \<times> submission)" where
  "submissionBody workerId taskId selection baseReward tx =
     (case baseReward of
        None \<Rightarrow> ([], Inl PrismaValidation)
      | Some amount \<Rightarrow>
          (case submission_create tx selection workerId taskId amount of
             Inl err \<Rightarrow> ([], Inl err)
           | Inr (tx1, sub) \<Rightarrow>
               (case worker_update tx1 workerId
                       (\<lambda>w. w\<lparr>w_pending_amount := w_pending_amount w + amount\<rparr>) of
                  Inl err \<Rightarrow> ([], Inl err)
                | Inr tx2 \<Rightarrow> ([], Inr (tx2, sub)))))"

text \<open>
  The handler up to its answer. When the task has become ready it starts
  \<open>processTaskCompletion\<close> without awaiting it; the flag in the answer
  \<open>SubmissionCreated200\<close> records that, and the settlement is a request of its own.
\<close>

definition submissionHandler :: "db \<Rightarrow> nat \<Rightarrow> nat \<Rightarrow> nat \<Rightarrow> db \<times> submissionResponse" where
  "submissionHandler d workerId taskId selection =
     (case getNextTask d workerId of
        None \<Rightarrow> (d, InvalidTask400)
      | Some tw \<Rightarrow>
          if t_id (tw_task tw) \<noteq> taskId then (d, InvalidTask400)
          else
            (case find (\<lambda>opt. o_id opt = selection) (tw_options tw) of
               None \<Rightarrow> (d, InvalidOption400)
             | Some selectedOption \<Rightarrow>
                 (let baseReward =
                        (if t_reviewCount (tw_task tw) = 0 then None
                         else Some (t_amount (tw_task tw) div t_reviewCount (tw_task tw)));
                      out = transaction d (submissionBody workerId taskId selection baseReward)
                  in case returned out of
                       Inl err \<Rightarrow>
                         (store out, if err = P2002 then AlreadySubmitted400 else SubmitFailed500)
                     | Inr result \<Rightarrow>
                         (case checkTaskCompletion (store out) taskId of
                            Inl err \<Rightarrow> (store out, SubmitFailed500)
                          | Inr status \<Rightarrow>
                              (store out,
                               SubmissionCreated200 result (isReadyForConsensus status))))))"

section \<open>Notions used in the statements, and example ledgers\<close>

text \<open>A combination is in the table when \<open>priceMap\<close> has an entry for it.\<close>

definition inPriceTable :: "env \<Rightarrow> string \<Rightarrow> int \<Rightarrow> bool" where
  "inPriceTable e serviceType reviewCount =
     (case priceMap e serviceType of None \<Rightarrow> False | Some tiers \<Rightarrow> tiers reviewCount \<noteq> None)"

text \<open>
  The order of the ranked list: more votes first, and among options with the same number
  of votes the smaller option id first.
\<close>

definition ranksBefore :: "'a tally_scheme \<Rightarrow> 'a tally_scheme \<Rightarrow> bool" where
  "ranksBefore a b \<longleftrightarrow> count b < count a \<or> (count a = count b \<and> optionId a < optionId b)"



text \<open>The withdrawal row that the first transaction of the payout handler creates.\<close>

definition processingRow :: "db \<Rightarrow> nat \<Rightarrow> int \<Rightarrow> workerWithdrawal" where
  "processingRow d workerId payoutAmount =
     \<lparr>ww_id = fresh_id (map ww_id (workerWithdrawals d)), ww_workerId = workerId,
      ww_amount = payoutAmount, ww_signature = ''pending'', ww_status = Processing,
      ww_processedAt = None\<rparr>"

text \<open>The pair that the unique constraint on submissions is about.\<close>

definition submissionKey :: "submission \<Rightarrow> nat \<times> nat" where
  "submissionKey s = (s_task_id s, s_worker_id s)"

text \<open>The workers who chose option \<open>k\<close>, in the order of their submissions.\<close>

definition votesFor :: "nat \<Rightarrow> submission list \<Rightarrow> nat list" where
  "votesFor k subs = map s_worker_id (filter (\<lambda>s. s_option_id s = k) subs)"

definition env0 :: env where
  "env0 = \<lparr>MARKETING_IMAGES_200_PRICE = 1000, MARKETING_IMAGES_500_PRICE = 2000,
            YOUTUBE_THUMBNAILS_200_PRICE = 1000, YOUTUBE_THUMBNAILS_500_PRICE = 2000,
            VIDEOS_100_PRICE = 3000, VIDEOS_300_PRICE = 6000,
            VIDEO_MAJORITY_REWARD = 100, IMAGE_THUMBNAIL_MAJORITY_REWARD = 50,
            SECOND_PLACE_MULTIPLIER = 7 / 10, THIRD_PLACE_MULTIPLIER = 4 / 10\<rparr>"

text \<open>
  A ledger with one open task of two options, stored with the larger option id first, and
  one vote for each option from two workers.
\<close>

definition ledger0 :: db where
  "ledger0 =
     \<lparr>tasks = [\<lparr>t_id = 1, t_amount = 1000, t_serviceType = ''VIDEOS'', t_reviewCount = 2,
                 t_done = False, t_createdAt = 0, t_completedAt = None\<rparr>],
      options = [\<lparr>o_id = 2, o_task_id = 1\<rparr>, \<lparr>o_id = 1, o_task_id = 1\<rparr>],
      submissions =
        [\<lparr>s_id = 1, s_option_id = 2, s_worker_id = 1, s_task_id = 1, s_amount = 500\<rparr>,
         \<lparr>s_id = 2, s_option_id = 1, s_worker_id = 2, s_task_id = 1, s_amount = 500\<rparr>],
      workers =
        [\<lparr>w_id = 1, w_address = ''A'', w_pending_amount = 500, w_locked_amount = 0,
          w_total_earned = 0, w_tasks_completed = 0\<rparr>,
         \<lparr>w_id = 2, w_address = ''B'', w_pending_amount = 500, w_locked_amount = 0,
          w_total_earned = 0, w_tasks_completed = 0\<rparr>],
      taskResults = [], optionResults = [], workerWithdrawals = []\<rparr>"

text \<open>
  The shipped dispatcher with a stub for the encoder and for the random source, and a
  dispatcher that fails for the wallet \<open>B\<close>.
\<close>

definition send0 :: dispatcher where
  "send0 = sendReward (\<lambda>bytes. ''sig'') (\<lambda>n i. 0)"

definition sendFailB :: dispatcher where
  "sendFailB n workerAddress amount =
     (if workerAddress = ''B'' then Inl PayoutFailed else send0 n workerAddress amount)"

text \<open>The example ledger after the settlement of its task at time 7.\<close>

definition ledger0_settled :: db where
  "ledger0_settled =
     \<lparr>tasks = [\<lparr>t_id = 1, t_amount = 1000, t_serviceType = ''VIDEOS'', t_reviewCount = 2,
                 t_done = True, t_createdAt = 0, t_completedAt = Some 7\<rparr>],
      options = [\<lparr>o_id = 2, o_task_id = 1\<rparr>, \<lparr>o_id = 1, o_task_id = 1\<rparr>],
      submissions =
        [\<lparr>s_id = 1, s_option_id = 2, s_worker_id = 1, s_task_id = 1, s_amount = 500\<rparr>,
         \<lparr>s_id = 2, s_option_id = 1, s_worker_id = 2, s_task_id = 1, s_amount = 500\<rparr>],
      workers =
        [\<lparr>w_id = 1, w_address = ''A'', w_pending_amount = 570, w_locked_amount = 0,
          w_total_earned = 70, w_tasks_completed = 1\<rparr>,
         \<lparr>w_id = 2, w_address = ''B'', w_pending_amount = 600, w_locked_amount = 0,
          w_total_earned = 100, w_tasks_completed = 1\<rparr>],
      taskResults = [\<lparr>tr_id = 1, tr_task_id = 1\<rparr>],
      optionResults =
        [\<lparr>or_id = 1, or_option_id = 1, or_task_result_id = 1, or_vote_count = 1,
          or_rank = 1, or_percentage = Fin 50\<rparr>,
         \<lparr>or_id = 2, or_option_id = 2, or_task_result_id = 1, or_vote_count = 1,
          or_rank = 2, or_percentage = Fin 50\<rparr>],
      workerWithdrawals = []\<rparr>"


text \<open>The example ledger before worker 2 has voted.\<close>

definition ledger1 :: db where
  "ledger1 =
     ledger0\<lparr>submissions :=
                [\<lparr>s_id = 1, s_option_id = 2, s_worker_id = 1, s_task_id = 1, s_amount = 500\<rparr>],
              workers :=
                [\<lparr>w_id = 1, w_address = ''A'', w_pending_amount = 500, w_locked_amount = 0,
                  w_total_earned = 0, w_tasks_completed = 0\<rparr>,
                 \<lparr>w_id = 2, w_address = ''B'', w_pending_amount = 0, w_locked_amount = 0,
                  w_total_earned = 0, w_tasks_completed = 0\<rparr>]\<rparr>"

section \<open>Pricing oracle: the price table\<close>

lemma inPriceTable_iff:
  "inPriceTable e st rc \<longleftrightarrow>
     (st = ''MARKETING_IMAGES'' \<and> (rc = 200 \<or> rc = 500)) \<or>
     (st = ''YOUTUBE_THUMBNAILS'' \<and> (rc = 200 \<or> rc = 500)) \<or>
     (st = ''VIDEOS'' \<and> (rc = 100 \<or> rc = 300))"
  by (simp add: inPriceTable_def priceMap_def)

text \<open>
  C9, as stated, fails: for a combination outside the table \<open>getServicePrice\<close> raises
  nothing; it returns the price 0. \<open>VIDEOS\<close> with 200 reviews is such a combination.
\<close>

theorem getServicePrice_returns_zero_counterexample:
  "\<not> inPriceTable env0 ''VIDEOS'' 200 \<and> getServicePrice env0 ''VIDEOS'' 200 = 0"
  by (simp add: inPriceTable_def getServicePrice_def priceMap_def)

text \<open>
  C9, amended: for every combination outside the table \<open>getServicePrice\<close> returns 0, and
  the task-creation handler, its caller, answers a zero price with the error 400
  "Invalid service type and review count combination"; for each of the six combinations
  in the table it returns the configured amount.
\<close>

theorem getServicePrice_table:
  "getServicePrice e ''MARKETING_IMAGES'' 200 = MARKETING_IMAGES_200_PRICE e \<and>
   getServicePrice e ''MARKETING_IMAGES'' 500 = MARKETING_IMAGES_500_PRICE e \<and>
   getServicePrice e ''YOUTUBE_THUMBNAILS'' 200 = YOUTUBE_THUMBNAILS_200_PRICE e \<and>
   getServicePrice e ''YOUTUBE_THUMBNAILS'' 500 = YOUTUBE_THUMBNAILS_500_PRICE e \<and>
   getServicePrice e ''VIDEOS'' 100 = VIDEOS_100_PRICE e \<and>
   getServicePrice e ''VIDEOS'' 300 = VIDEOS_300_PRICE e \<and>
   (\<not> inPriceTable e st rc \<longrightarrow>
      getServicePrice e st rc = 0 \<and> uploadPriceCheck e st rc = InvalidCombination400)"
  by (simp add: inPriceTable_def getServicePrice_def priceMap_def uploadPriceCheck_def)

theorem getServicePrice_table_witness:
  "\<not> inPriceTable env0 ''VIDEOS'' 500 \<and> getServicePrice env0 ''VIDEOS'' 500 = 0 \<and>
   uploadPriceCheck env0 ''VIDEOS'' 500 = InvalidCombination400 \<and>
   getServicePrice env0 ''VIDEOS'' 300 = 6000"
  using getServicePrice_table [of env0 "''VIDEOS''" 500]
  by (simp add: inPriceTable_def priceMap_def env0_def)

section \<open>The completion threshold\<close>

text \<open>
  C6: \<open>checkTaskCompletion\<close> fails with "Task not found" when no task has the id.
  Otherwise it returns the task's review count and the number of its submissions, and
  \<open>isReadyForConsensus\<close> holds exactly when the quotient of the two is at least 0.8: for
  a non-zero review count this is the comparison of the rational quotient (for a
  positive one, \<open>4 * required \<le> 5 * current\<close>), and for a zero review count the
  JavaScript quotient is \<open>Infinity\<close> when there is a submission and \<open>NaN\<close> when there is
  none.
\<close>

theorem checkTaskCompletion_threshold:
  "(\<not> (\<exists>t \<in> set (tasks d). t_id t = taskId) \<longrightarrow>
      checkTaskCompletion d taskId = Inl TaskNotFound) \<and>
   ((\<exists>t \<in> set (tasks d). t_id t = taskId) \<longrightarrow>
      (\<exists>st. checkTaskCompletion d taskId = Inr st \<and>
            (\<exists>t \<in> set (tasks d). t_id t = taskId \<and> requiredSubmissions st = t_reviewCount t) \<and>
            currentSubmissions st = length (taskSubmissions d taskId) \<and>
            (requiredSubmissions st \<noteq> 0 \<longrightarrow>
               (isReadyForConsensus st \<longleftrightarrow>
                  8 / 10 \<le> rat_of_nat (currentSubmissions st) / rat_of_int (requiredSubmissions st))) \<and>
            (0 < requiredSubmissions st \<longrightarrow>
               (isReadyForConsensus st \<longleftrightarrow>
                  4 * requiredSubmissions st \<le> 5 * int (currentSubmissions st))) \<and>
            (requiredSubmissions st = 0 \<longrightarrow>
               (isReadyForConsensus st \<longleftrightarrow> 0 < currentSubmissions st))))"
proof (cases "find (\<lambda>t. t_id t = taskId) (tasks d)")
  case None
  have "checkTaskCompletion d taskId = Inl TaskNotFound"
    by (simp add: checkTaskCompletion_def task_findUnique_def None)
  moreover have "\<not> (\<exists>t \<in> set (tasks d). t_id t = taskId)"
    using None by (auto simp: find_None_iff)
  ultimately show ?thesis by blast
next
  case (Some t)
  then have mem: "t \<in> set (tasks d)" and tid: "t_id t = taskId"
    by (auto simp: find_Some_iff)
  from Some show ?thesis
    apply (simp add: checkTaskCompletion_def task_findUnique_def js_div_def js_ge_def
        MINIMUM_SUBMISSIONS_THRESHOLD_def Let_def)
    using mem tid apply (auto simp: field_simps)
    done
qed

theorem checkTaskCompletion_threshold_witness:
  "(\<exists>st. checkTaskCompletion ledger0 1 = Inr st \<and> isReadyForConsensus st \<and>
         requiredSubmissions st = 2 \<and> currentSubmissions st = 2) \<and>
   checkTaskCompletion ledger0 5 = Inl TaskNotFound"
  using checkTaskCompletion_threshold [of ledger0 1] checkTaskCompletion_threshold [of ledger0 5]
  by (simp add: ledger0_def checkTaskCompletion_def task_findUnique_def js_div_def js_ge_def
      MINIMUM_SUBMISSIONS_THRESHOLD_def taskSubmissions_def)

section \<open>Rewards\<close>





lemma rankResults_length [simp]: "length (rankResults n xs) = length xs"
  by (simp add: rankResults_def)

lemma rankResults_nth:
  "i < length xs \<Longrightarrow>
   rank (rankResults n xs ! i) = i + 1 \<and> optionId (rankResults n xs ! i) = optionId (xs ! i) \<and>
   count (rankResults n xs ! i) = count (xs ! i) \<and> voters (rankResults n xs ! i) = voters (xs ! i) \<and>
   percentage (rankResults n xs ! i) = js_times (js_div (count (xs ! i)) (int n)) 100"
  by (simp add: rankResults_def rankResult_def nth_enumerate_eq)

lemma rankResults_ranks: "map rank (rankResults n xs) = map Suc [0..<length xs]"
  by (rule nth_equalityI) (simp_all add: rankResults_nth del: upt_Suc)



section \<open>The vote tally\<close>

lemma obj_set_keys:
  "set (map fst (obj_set k v obj)) = insert k (set (map fst obj))"
  by (induction k v obj rule: obj_set.induct) (simp, simp, blast)

lemma obj_set_sorted:
  "sorted_wrt (<) (map fst obj) \<Longrightarrow> sorted_wrt (<) (map fst (obj_set k v obj))"
proof (induction obj)
  case Nil
  then show ?case by simp
next
  case (Cons p obj)
  obtain k' v' where p: "p = (k', v')" by (cases p)
  from Cons.prems p have less: "\<forall>x \<in> set (map fst obj). k' < x" and rest: "sorted_wrt (<) (map fst obj)"
    by auto
  show ?case
  proof (cases "k = k'")
    case True
    with Cons.prems p show ?thesis by simp
  next
    case neq: False
    show ?thesis
    proof (cases "k < k'")
      case True
      with Cons.prems p neq less show ?thesis by (auto intro: less_trans)
    next
      case False
      with neq have "k' < k" by simp
      with less have "\<forall>x \<in> set (map fst (obj_set k v obj)). k' < x"
        unfolding obj_set_keys by simp
      with Cons.IH [OF rest] False neq p show ?thesis by simp
    qed
  qed
qed

lemma obj_set_entries:
  "set (obj_set k v obj) \<subseteq> insert (k, v) (set obj)"
  by (induction k v obj rule: obj_set.induct) (simp, simp, blast)

lemma wf_obj_set:
  "wf_obj obj \<Longrightarrow> optionId v = k \<Longrightarrow> wf_obj (obj_set k v obj)"
  unfolding wf_obj_def using obj_set_entries [of k v obj] obj_set_sorted [of obj k v]
  by auto

lemma obj_set_present:
  "sorted_wrt (<) (map fst obj) \<Longrightarrow> map_of obj k = Some v0 \<Longrightarrow>
   map fst (obj_set k v obj) = map fst obj \<and>
   sum_list (map (\<lambda>p. count (snd p)) (obj_set k v obj)) + count v0 =
     sum_list (map (\<lambda>p. count (snd p)) obj) + count v"
proof (induction obj)
  case Nil
  then show ?case by simp
next
  case (Cons p obj)
  obtain k' v' where p: "p = (k', v')" by (cases p)
  show ?case
  proof (cases "k = k'")
    case True
    with Cons.prems p show ?thesis by simp
  next
    case neq: False
    with Cons.prems p have later: "map_of obj k = Some v0" by simp
    then have "k \<in> set (map fst obj)" by (auto dest: map_of_SomeD intro: rev_image_eqI)
    with Cons.prems(1) p have "k' < k" by auto
    with neq p Cons.IH [OF _ later] Cons.prems(1) show ?thesis by simp
  qed
qed

lemma initVoteCounts_fold:
  "wf_obj acc \<Longrightarrow> (\<forall>p \<in> set acc. count (snd p) = 0) \<Longrightarrow>
   wf_obj (fold (\<lambda>opt voteCounts.
             obj_set (o_id opt) \<lparr>optionId = o_id opt, count = 0, voters = []\<rparr> voteCounts) opts acc) \<and>
   (\<forall>p \<in> set (fold (\<lambda>opt voteCounts.
             obj_set (o_id opt) \<lparr>optionId = o_id opt, count = 0, voters = []\<rparr> voteCounts) opts acc).
       count (snd p) = 0) \<and>
   set (map fst (fold (\<lambda>opt voteCounts.
             obj_set (o_id opt) \<lparr>optionId = o_id opt, count = 0, voters = []\<rparr> voteCounts) opts acc))
     = set (map fst acc) \<union> o_id ` set opts"
proof (induction opts arbitrary: acc)
  case Nil
  then show ?case by simp
next
  case (Cons opt opts)
  let ?acc' = "obj_set (o_id opt) \<lparr>optionId = o_id opt, count = 0, voters = []\<rparr> acc"
  have 1: "wf_obj ?acc'" using Cons.prems(1) by (simp add: wf_obj_set)
  have 2: "\<forall>p \<in> set ?acc'. count (snd p) = 0"
    using Cons.prems(2) obj_set_entries [of "o_id opt" _ acc] by fastforce
  from Cons.IH [OF 1 2] show ?case
    by (simp add: obj_set_keys del: set_map)
qed

lemma initVoteCounts_props:
  "wf_obj (initVoteCounts opts) \<and>
   (\<forall>p \<in> set (initVoteCounts opts). count (snd p) = 0) \<and>
   set (map fst (initVoteCounts opts)) = o_id ` set opts"
  using initVoteCounts_fold [of "[]" opts] by (simp add: initVoteCounts_def wf_obj_def)

lemma tallyVote_props:
  assumes "wf_obj vc"
  shows "wf_obj (tallyVote s vc) \<and> map fst (tallyVote s vc) = map fst vc \<and>
     sum_list (map (\<lambda>p. count (snd p)) (tallyVote s vc)) =
       sum_list (map (\<lambda>p. count (snd p)) vc) + (if s_option_id s \<in> set (map fst vc) then 1 else 0)"
proof (cases "map_of vc (s_option_id s)")
  case None
  then have "s_option_id s \<notin> set (map fst vc)" by (simp add: map_of_eq_None_iff)
  with None assms show ?thesis by (simp add: tallyVote_def obj_get_def)
next
  case (Some entry)
  then have mem: "(s_option_id s, entry) \<in> set vc" by (rule map_of_SomeD)
  then have key: "s_option_id s \<in> set (map fst vc)" by (auto intro: rev_image_eqI)
  from mem assms have oid: "optionId entry = s_option_id s" by (auto simp: wf_obj_def)
  let ?entry' = "entry\<lparr>count := count entry + 1, voters := voters entry @ [s_worker_id s]\<rparr>"
  have eq: "tallyVote s vc = obj_set (s_option_id s) ?entry' vc"
    by (simp add: tallyVote_def obj_get_def Some)
  from assms have srt: "sorted_wrt (<) (map fst vc)" by (simp add: wf_obj_def)
  from obj_set_present [OF srt Some, of ?entry'] key
  have "map fst (tallyVote s vc) = map fst vc"
    and "sum_list (map (\<lambda>p. count (snd p)) (tallyVote s vc)) =
       sum_list (map (\<lambda>p. count (snd p)) vc) + (if s_option_id s \<in> set (map fst vc) then 1 else 0)"
    by (simp_all add: eq)
  moreover have "wf_obj (tallyVote s vc)"
    unfolding eq using assms oid by (intro wf_obj_set) simp_all
  ultimately show ?thesis by simp
qed

lemma tallyVotes_props:
  "wf_obj vc \<Longrightarrow>
   wf_obj (tallyVotes subs vc) \<and> map fst (tallyVotes subs vc) = map fst vc \<and>
     sum_list (map (\<lambda>p. count (snd p)) (tallyVotes subs vc)) =
       sum_list (map (\<lambda>p. count (snd p)) vc) +
       length (filter (\<lambda>s. s_option_id s \<in> set (map fst vc)) subs)"
proof (induction subs arbitrary: vc)
  case Nil
  then show ?case by (simp add: tallyVotes_def)
next
  case (Cons s subs)
  from tallyVote_props [OF Cons.prems, of s]
  have 1: "wf_obj (tallyVote s vc)" and 2: "map fst (tallyVote s vc) = map fst vc"
    and 3: "sum_list (map (\<lambda>p. count (snd p)) (tallyVote s vc)) =
       sum_list (map (\<lambda>p. count (snd p)) vc) + (if s_option_id s \<in> set (map fst vc) then 1 else 0)"
    by simp_all
  from Cons.IH [OF 1] 2 3 show ?case
    by (simp add: tallyVotes_def)
qed

section \<open>Ranking\<close>

lemma insort_ranksBefore:
  "sorted_wrt ranksBefore ys \<Longrightarrow> \<forall>y \<in> set ys. optionId x < optionId y \<Longrightarrow>
   sorted_wrt ranksBefore (insort_key (\<lambda>r. - int (count r)) x ys)"
proof (induction ys)
  case Nil
  then show ?case by simp
next
  case (Cons y ys)
  show ?case
  proof (cases "count y \<le> count x")
    case True
    have "ranksBefore x z" if "z \<in> set (y # ys)" for z
    proof -
      have "count z \<le> count y"
        using that Cons.prems(1) by (auto simp: ranksBefore_def)
      with True that Cons.prems(2) show ?thesis by (auto simp: ranksBefore_def)
    qed
    with True Cons.prems(1) show ?thesis by simp
  next
    case False
    then have yx: "ranksBefore y x" by (simp add: ranksBefore_def)
    from Cons.prems have "sorted_wrt ranksBefore (insort_key (\<lambda>r. - int (count r)) x ys)"
      by (intro Cons.IH) simp_all
    with False yx Cons.prems(1) show ?thesis by (auto simp: set_insort_key)
  qed
qed

lemma sortByCountDesc_sorted:
  "sorted_wrt (<) (map optionId xs) \<Longrightarrow> sorted_wrt ranksBefore (sortByCountDesc xs)"
proof (induction xs)
  case Nil
  then show ?case by (simp add: sortByCountDesc_def)
next
  case (Cons x xs)
  then have "sorted_wrt ranksBefore (sortByCountDesc xs)" by simp
  moreover from Cons.prems have "\<forall>y \<in> set (sortByCountDesc xs). optionId x < optionId y"
    by (simp add: sortByCountDesc_def)
  ultimately show ?case
    using insort_ranksBefore [of "sortByCountDesc xs" x] by (simp add: sortByCountDesc_def)
qed

lemma sum_list_insort_key:
  "sum_list (map g (insort_key f x xs)) = g x + sum_list (map g xs)" for g :: "'a \<Rightarrow> nat"
  by (induction xs) simp_all

lemma sum_list_sort_key:
  "sum_list (map g (sort_key f xs)) = sum_list (map g xs)" for g :: "'a \<Rightarrow> nat"
  by (induction xs) (simp_all add: sum_list_insort_key)

lemma rankResults_sorted:
  "sorted_wrt ranksBefore xs \<Longrightarrow> sorted_wrt ranksBefore (rankResults n xs)"
  unfolding sorted_wrt_iff_nth_less
  by (simp add: rankResults_nth ranksBefore_def)

lemma rankResults_map:
  "map optionId (rankResults n xs) = map optionId xs \<and> map count (rankResults n xs) = map count xs"
  by (auto intro!: nth_equalityI simp: rankResults_nth)

text \<open>What a successful \<open>calculateConsensus\<close> has computed.\<close>

lemma calculateConsensus_InrD:
  assumes "calculateConsensus e d taskId = Inr c"
  shows "\<exists>t. find (\<lambda>t. t_id t = taskId) (tasks d) = Some t \<and>
             js_ge (js_div (length (taskSubmissions d taskId)) (t_reviewCount t)) (8 / 10) \<and>
             workerRewards c = calculateWorkerRewards e t (results c)"
    and "totalSubmissions c = length (taskSubmissions d taskId)"
    and "results c = rankResults (length (taskSubmissions d taskId))
           (sortByCountDesc (obj_values
              (tallyVotes (taskSubmissions d taskId) (initVoteCounts (taskOptions d taskId)))))"
    and "c_taskId c = taskId"
  using assms
  by (auto simp: calculateConsensus_def checkTaskCompletion_def task_findUnique_def Let_def
      MINIMUM_SUBMISSIONS_THRESHOLD_def split: option.splits if_splits)

lemma voteCounts_props:
  defines "vc \<equiv> \<lambda>subs opts. tallyVotes subs (initVoteCounts opts)"
  shows "wf_obj (vc subs opts)"
    and "set (map fst (vc subs opts)) = o_id ` set opts"
    and "sum_list (map (\<lambda>p. count (snd p)) (vc subs opts)) =
           length (filter (\<lambda>s. s_option_id s \<in> o_id ` set opts) subs)"
proof -
  have init: "wf_obj (initVoteCounts opts)" "\<forall>p \<in> set (initVoteCounts opts). count (snd p) = 0"
    "set (map fst (initVoteCounts opts)) = o_id ` set opts"
    using initVoteCounts_props [of opts] by simp_all
  have zero: "sum_list (map (\<lambda>p. count (snd p)) (initVoteCounts opts)) = 0"
    using init(2) by (simp add: sum_list_eq_0_iff)
  from tallyVotes_props [OF init(1), of subs] init(3) zero
  show "wf_obj (vc subs opts)" "set (map fst (vc subs opts)) = o_id ` set opts"
    "sum_list (map (\<lambda>p. count (snd p)) (vc subs opts)) =
           length (filter (\<lambda>s. s_option_id s \<in> o_id ` set opts) subs)"
    by (simp_all add: vc_def del: set_map)
qed

lemma obj_values_optionId: "wf_obj obj \<Longrightarrow> map optionId (obj_values obj) = map fst obj"
  by (simp add: wf_obj_def obj_values_def)

lemma sortByCountDesc_set [simp]: "set (sortByCountDesc xs) = set xs"
  by (simp add: sortByCountDesc_def)

lemma sortByCountDesc_length [simp]: "length (sortByCountDesc xs) = length xs"
  by (simp add: sortByCountDesc_def)

lemma results_props:
  assumes "calculateConsensus e d taskId = Inr c"
  shows "map rank (results c) = [1..<Suc (length (results c))]"
    and "set (map optionId (results c)) = o_id ` set (taskOptions d taskId)"
    and "length (results c) = card (o_id ` set (taskOptions d taskId))"
    and "distinct (map optionId (results c))"
    and "sorted_wrt ranksBefore (results c)"
    and "sum_list (map count (results c)) =
           length (filter (\<lambda>s. s_option_id s \<in> o_id ` set (taskOptions d taskId))
                          (taskSubmissions d taskId))"
proof -
  let ?subs = "taskSubmissions d taskId" and ?opts = "taskOptions d taskId"
  let ?vc = "tallyVotes ?subs (initVoteCounts ?opts)"
  let ?xs = "obj_values ?vc"
  have res: "results c = rankResults (length ?subs) (sortByCountDesc ?xs)"
    using calculateConsensus_InrD(3) [OF assms] .
  have wf: "wf_obj ?vc" and keys: "set (map fst ?vc) = o_id ` set ?opts"
    and total: "sum_list (map (\<lambda>p. count (snd p)) ?vc) =
           length (filter (\<lambda>s. s_option_id s \<in> o_id ` set ?opts) ?subs)"
    using voteCounts_props [of ?subs ?opts] by simp_all
  have ids: "map optionId ?xs = map fst ?vc" using wf by (rule obj_values_optionId)
  have srt: "sorted_wrt (<) (map optionId ?xs)" using wf ids by (simp add: wf_obj_def)
  then have dist: "distinct (map optionId ?xs)"
    using strict_sorted_iff by (metis sorted_wrt_iff_nth_less distinct_conv_nth nat_neq_iff length_map nth_map)
  show "map rank (results c) = [1..<Suc (length (results c))]"
    by (simp add: res rankResults_ranks map_Suc_upt del: upt_Suc)
  have "set (map optionId (results c)) = optionId ` set (sortByCountDesc ?xs)"
    using rankResults_map [of "length ?subs" "sortByCountDesc ?xs"] res
    by (metis list.set_map)
  also have "\<dots> = set (map optionId ?xs)" by simp
  finally show setids: "set (map optionId (results c)) = o_id ` set ?opts"
    using ids keys by simp
  have "length (results c) = length (map optionId ?xs)" by (simp add: res)
  also have "\<dots> = card (set (map optionId ?xs))" using distinct_card [OF dist] by simp
  finally show len: "length (results c) = card (o_id ` set ?opts)" using ids keys by simp
  show "distinct (map optionId (results c))"
    using setids len by (intro card_distinct) simp
  show "sorted_wrt ranksBefore (results c)"
    unfolding res using srt by (intro rankResults_sorted sortByCountDesc_sorted)
  have "sum_list (map count (results c)) = sum_list (map count (sortByCountDesc ?xs))"
    using rankResults_map [of "length ?subs" "sortByCountDesc ?xs"] res by simp
  also have "\<dots> = sum_list (map count ?xs)" by (simp add: sortByCountDesc_def sum_list_sort_key)
  also have "\<dots> = sum_list (map (\<lambda>p. count (snd p)) ?vc)" by (simp add: obj_values_def comp_def)
  finally show "sum_list (map count (results c)) =
           length (filter (\<lambda>s. s_option_id s \<in> o_id ` set ?opts) ?subs)"
    using total by simp
qed

text \<open>Each entry of the result holds the votes for its option.\<close>

lemma map_of_obj_set:
  "map_of (obj_set k v obj) j = (if j = k then Some v else map_of obj j)"
  by (induction k v obj rule: obj_set.induct) auto

lemma initVoteCounts_lookup_fold:
  "map_of (fold (\<lambda>opt voteCounts.
             obj_set (o_id opt) \<lparr>optionId = o_id opt, count = 0, voters = []\<rparr> voteCounts) opts acc) k =
   (if k \<in> o_id ` set opts then Some \<lparr>optionId = k, count = 0, voters = []\<rparr> else map_of acc k)"
proof (induction opts arbitrary: acc rule: rev_induct)
  case Nil
  then show ?case by simp
next
  case (snoc opt opts)
  then show ?case by (auto simp: map_of_obj_set)
qed

lemma initVoteCounts_lookup:
  "map_of (initVoteCounts opts) k =
   (if k \<in> o_id ` set opts then Some \<lparr>optionId = k, count = 0, voters = []\<rparr> else None)"
  using initVoteCounts_lookup_fold [of opts "[]" k] by (simp add: initVoteCounts_def)

lemma tallyVote_lookup:
  "map_of (tallyVote s vc) k =
   (if k = s_option_id s
    then map_option (\<lambda>e. e\<lparr>count := count e + 1, voters := voters e @ [s_worker_id s]\<rparr>) (map_of vc k)
    else map_of vc k)"
  by (cases "map_of vc (s_option_id s)") (simp_all add: tallyVote_def obj_get_def map_of_obj_set)

lemma tallyVotes_lookup:
  "map_of (tallyVotes subs vc) k =
   map_option (\<lambda>e. e\<lparr>count := count e + length (votesFor k subs),
                       voters := voters e @ votesFor k subs\<rparr>) (map_of vc k)"
proof (induction subs arbitrary: vc)
  case Nil
  then show ?case by (simp add: tallyVotes_def votesFor_def option.map_ident)
next
  case (Cons s subs)
  have "tallyVotes (s # subs) vc = tallyVotes subs (tallyVote s vc)"
    by (simp add: tallyVotes_def)
  then show ?case
    by (cases "map_of vc k") (auto simp: Cons.IH tallyVote_lookup votesFor_def)
qed

lemma voteCounts_lookup:
  "map_of (tallyVotes subs (initVoteCounts opts)) k =
   (if k \<in> o_id ` set opts
    then Some \<lparr>optionId = k, count = length (votesFor k subs), voters = votesFor k subs\<rparr>
    else None)"
  by (simp add: tallyVotes_lookup initVoteCounts_lookup)

lemma wf_obj_lookup:
  assumes "wf_obj obj" and "p \<in> set obj"
  shows "map_of obj (fst p) = Some (snd p)"
proof -
  from assms(1) have dist: "distinct (map fst obj)"
    by (simp add: wf_obj_def strict_sorted_iff [symmetric] sorted_wrt_iff_nth_less distinct_conv_nth)
       (metis nat_neq_iff less_irrefl)
  have "(fst p, snd p) \<in> set obj" using assms(2) by simp
  then show ?thesis using dist by (simp only: map_of_eq_Some_iff)
qed

lemma results_voters:
  assumes "calculateConsensus e d taskId = Inr c" and "r \<in> set (results c)"
  shows "voters r = votesFor (optionId r) (taskSubmissions d taskId) \<and> count r = length (voters r)"
proof -
  let ?subs = "taskSubmissions d taskId" and ?opts = "taskOptions d taskId"
  let ?vc = "tallyVotes ?subs (initVoteCounts ?opts)"
  let ?xs = "sortByCountDesc (obj_values ?vc)"
  have res: "results c = rankResults (length ?subs) ?xs"
    using calculateConsensus_InrD(3) [OF assms(1)] .
  from assms(2) obtain i where i: "i < length ?xs" "r = results c ! i"
    by (auto simp: in_set_conv_nth res)
  let ?x = "?xs ! i"
  from i have r: "voters r = voters ?x" "optionId r = optionId ?x" "count r = count ?x"
    by (simp_all add: res rankResults_nth)
  from i have "?x \<in> set (obj_values ?vc)" by (metis nth_mem sortByCountDesc_set)
  then obtain p where p: "p \<in> set ?vc" "snd p = ?x" by (auto simp: obj_values_def)
  have wf: "wf_obj ?vc" using voteCounts_props(1) [of ?subs ?opts] .
  from wf p have key: "fst p = optionId ?x" by (auto simp: wf_obj_def)
  from wf_obj_lookup [OF wf p(1)] p(2) key have "map_of ?vc (optionId ?x) = Some ?x" by simp
  then have "?x = \<lparr>optionId = optionId ?x, count = length (votesFor (optionId ?x) ?subs),
                    voters = votesFor (optionId ?x) ?subs\<rparr>"
    by (simp add: voteCounts_lookup split: if_splits)
  then have "voters ?x = votesFor (optionId ?x) ?subs \<and> count ?x = length (votesFor (optionId ?x) ?subs)"
    by (metis tally.select_convs(2,3))
  with r show ?thesis by simp
qed

text \<open>The consensus of the example ledger, computed.\<close>

lemma consensus0:
   "calculateConsensus env0 ledger0 1 =
     Inr \<lparr>c_taskId = 1, totalSubmissions = 2,
          results =
            [\<lparr>optionId = 1, count = 1, voters = [2], rank = 1, percentage = Fin 50\<rparr>,
             \<lparr>optionId = 2, count = 1, voters = [1], rank = 2, percentage = Fin 50\<rparr>],
          workerRewards =
            [\<lparr>wr_workerId = 2, wr_optionId = 1, wr_rank = 1, wr_amount = 100,
              wr_percentage = Fin 50\<rparr>,
             \<lparr>wr_workerId = 1, wr_optionId = 2, wr_rank = 2, wr_amount = 70,
              wr_percentage = Fin 50\<rparr>]\<rparr>"
  by code_simp

text \<open>
  C5, as stated, fails in its last part: tied options do not keep their input order.
  The example task lists option 2 before option 1, both get one vote, and option 1 is
  ranked first.
\<close>

theorem calculateConsensus_tie_counterexample:
  "map o_id (taskOptions ledger0 1) = [2, 1] \<and>
   map count (results (projr (calculateConsensus env0 ledger0 1))) = [1, 1] \<and>
   map optionId (results (projr (calculateConsensus env0 ledger0 1))) = [1, 2] \<and>
   map rank (results (projr (calculateConsensus env0 ledger0 1))) = [1, 2]"
  unfolding consensus0 by (simp add: taskOptions_def ledger0_def)

text \<open>
  C5, amended: the ranks assigned by \<open>calculateConsensus\<close> are exactly \<open>1..N\<close>, in
  order, where \<open>N\<close> is the number of distinct option ids of the task; every option
  appears once; the list is sorted by vote count descending; and options that tie on
  vote count are ranked by ascending option id (which is their input order only when
  the options are stored in ascending id order).
\<close>

theorem calculateConsensus_ranking:
  assumes "calculateConsensus e d taskId = Inr c"
  shows "map rank (results c) = [1..<Suc (length (results c))] \<and>
         length (results c) = card (o_id ` set (taskOptions d taskId)) \<and>
         set (map optionId (results c)) = o_id ` set (taskOptions d taskId) \<and>
         distinct (map optionId (results c)) \<and>
         sorted_wrt ranksBefore (results c)"
  using results_props [OF assms] by simp

theorem calculateConsensus_ranking_witness:
  "map rank (results (projr (calculateConsensus env0 ledger0 1))) = [1, 2] \<and>
   map optionId (results (projr (calculateConsensus env0 ledger0 1))) = [1, 2] \<and>
   sorted_wrt ranksBefore (results (projr (calculateConsensus env0 ledger0 1)))"
  using calculateConsensus_ranking [OF consensus0]
  unfolding consensus0 by (simp add: ranksBefore_def)

section \<open>Vote counts and percentages\<close>

lemma ready_positive:
  "js_ge (js_div n r) (8 / 10) \<Longrightarrow> 0 < n"
  by (cases "n = 0") (auto simp: js_ge_def js_div_def split: if_splits)

lemma sum_list_percentages:
  "(\<Sum>r\<leftarrow>rs. rat_of_nat (f r) / rat_of_nat n * 100) = rat_of_nat (sum_list (map f rs)) / rat_of_nat n * 100"
  by (induction rs) (simp_all add: add_divide_distrib distrib_right)

text \<open>
  C7: when every submission of the task votes for one of the task's options, the vote
  counts of the result sum to the total number of submissions, which is positive; the
  count of an option is the number of submissions that chose it; each percentage is \<open>votes / totalSubmissions * 100\<close>, and in exact arithmetic the
  percentages sum to 100.
\<close>

theorem calculateConsensus_votes:
  assumes "calculateConsensus e d taskId = Inr c"
    and "\<forall>s \<in> set (taskSubmissions d taskId). s_option_id s \<in> o_id ` set (taskOptions d taskId)"
  shows "sum_list (map count (results c)) = totalSubmissions c \<and>
         0 < totalSubmissions c \<and>
         (\<forall>r \<in> set (results c).
            count r = length (votesFor (optionId r) (taskSubmissions d taskId))) \<and>
         (\<forall>r \<in> set (results c).
            percentage r = Fin (rat_of_nat (count r) / rat_of_nat (totalSubmissions c) * 100)) \<and>
         (\<Sum>r\<leftarrow>results c. rat_of_nat (count r) / rat_of_nat (totalSubmissions c) * 100) = 100"
proof -
  let ?subs = "taskSubmissions d taskId"
  have tot: "totalSubmissions c = length ?subs"
    using calculateConsensus_InrD(2) [OF assms(1)] .
  from calculateConsensus_InrD(1) [OF assms(1)] obtain t :: task where
    "js_ge (js_div (length ?subs) (t_reviewCount t)) (8 / 10)" by blast
  then have pos: "0 < length ?subs" by (rule ready_positive)
  have "filter (\<lambda>s. s_option_id s \<in> o_id ` set (taskOptions d taskId)) ?subs = ?subs"
    using assms(2) by (simp add: filter_id_conv)
  with results_props(6) [OF assms(1)] have sum: "sum_list (map count (results c)) = length ?subs"
    by simp
  have res: "results c = rankResults (length ?subs) (sortByCountDesc (obj_values
              (tallyVotes ?subs (initVoteCounts (taskOptions d taskId)))))"
    using calculateConsensus_InrD(3) [OF assms(1)] .
  have pct: "percentage r = Fin (rat_of_nat (count r) / rat_of_nat (length ?subs) * 100)"
    if "r \<in> set (results c)" for r
  proof -
    from that obtain i where "i < length (results c)" "r = results c ! i"
      by (auto simp: in_set_conv_nth)
    with pos show ?thesis
      by (simp add: res rankResults_nth js_div_def js_times_def)
  qed
  have "(\<Sum>r\<leftarrow>results c. rat_of_nat (count r) / rat_of_nat (length ?subs) * 100) = 100"
    unfolding sum_list_percentages sum using pos by simp
  moreover have "count r = length (votesFor (optionId r) ?subs)" if "r \<in> set (results c)" for r
    using results_voters [OF assms(1) that] by simp
  ultimately show ?thesis using sum pos pct by (simp add: tot)
qed

theorem calculateConsensus_votes_witness:
  "sum_list (map count (results (projr (calculateConsensus env0 ledger0 1)))) = 2 \<and>
   totalSubmissions (projr (calculateConsensus env0 ledger0 1)) = 2 \<and>
   map percentage (results (projr (calculateConsensus env0 ledger0 1))) = [Fin 50, Fin 50]"
proof -
  have "\<forall>s \<in> set (taskSubmissions ledger0 1). s_option_id s \<in> o_id ` set (taskOptions ledger0 1)"
    by (simp add: taskSubmissions_def taskOptions_def ledger0_def)
  from calculateConsensus_votes [OF consensus0 this] show ?thesis
    unfolding consensus0 by simp
qed

section \<open>Rank-tiered rewards\<close>



section \<open>Settlement: what the ledger writes leave untouched\<close>

lemma task_update_frame:
  "task_update d taskId f = Inr d' \<Longrightarrow>
   submissions d' = submissions d \<and> options d' = options d \<and> workers d' = workers d \<and>
   taskResults d' = taskResults d \<and> optionResults d' = optionResults d \<and>
   workerWithdrawals d' = workerWithdrawals d \<and>
   tasks d' = map (\<lambda>t. if t_id t = taskId then f t else t) (tasks d)"
  by (auto simp: task_update_def split: if_splits)

lemma worker_update_frame:
  "worker_update d workerId f = Inr d' \<Longrightarrow>
   submissions d' = submissions d \<and> options d' = options d \<and> tasks d' = tasks d \<and>
   taskResults d' = taskResults d \<and> optionResults d' = optionResults d \<and>
   workerWithdrawals d' = workerWithdrawals d \<and>
   workers d' = map (\<lambda>w. if w_id w = workerId then f w else w) (workers d)"
  by (auto simp: worker_update_def split: if_splits)

lemma taskResult_create_frame:
  "taskResult_create d taskId = Inr (d', row) \<Longrightarrow>
   submissions d' = submissions d \<and> options d' = options d \<and> tasks d' = tasks d \<and>
   workers d' = workers d \<and> optionResults d' = optionResults d \<and>
   workerWithdrawals d' = workerWithdrawals d \<and>
   taskResults d' = taskResults d @ [row] \<and> tr_task_id row = taskId"
  by (auto simp: taskResult_create_def Let_def split: if_splits)

lemma optionResult_create_frame:
  "submissions (optionResult_create k r d) = submissions d \<and>
   options (optionResult_create k r d) = options d \<and>
   tasks (optionResult_create k r d) = tasks d \<and>
   workers (optionResult_create k r d) = workers d \<and>
   taskResults (optionResult_create k r d) = taskResults d \<and>
   workerWithdrawals (optionResult_create k r d) = workerWithdrawals d"
  by (simp add: optionResult_create_def)

lemma fold_optionResult_create_frame:
  "submissions (fold (optionResult_create k) rs d) = submissions d \<and>
   options (fold (optionResult_create k) rs d) = options d \<and>
   tasks (fold (optionResult_create k) rs d) = tasks d \<and>
   workers (fold (optionResult_create k) rs d) = workers d \<and>
   taskResults (fold (optionResult_create k) rs d) = taskResults d \<and>
   workerWithdrawals (fold (optionResult_create k) rs d) = workerWithdrawals d"
  by (induction rs arbitrary: d) (simp_all add: optionResult_create_frame)

lemma distributeRewards_frame:
  "distributeRewards send d cs acc rws = (cs', Inr (d', rts)) \<Longrightarrow>
   submissions d' = submissions d \<and> options d' = options d \<and> tasks d' = tasks d \<and>
   taskResults d' = taskResults d \<and> optionResults d' = optionResults d \<and>
   workerWithdrawals d' = workerWithdrawals d"
proof (induction rws arbitrary: d cs acc)
  case Nil
  then show ?case by simp
next
  case (Cons rw rws)
  from Cons.prems obtain d1 and w :: worker and sig where
    upd: "worker_update d (wr_workerId rw)
             (\<lambda>w. w\<lparr>w_pending_amount := w_pending_amount w + wr_amount rw,
                     w_total_earned := w_total_earned w + wr_amount rw,
                     w_tasks_completed := w_tasks_completed w + 1\<rparr>) = Inr d1"
    and rest: "distributeRewards send d1 (cs @ [(w_address w, wr_amount rw)])
                 (acc @ [\<lparr>rt_workerId = wr_workerId rw, rt_amount = wr_amount rw,
                               rt_signature = sig, rt_rank = wr_rank rw\<rparr>]) rws = (cs', Inr (d', rts))"
    by (auto split: sum.splits option.splits)
  from Cons.IH [OF rest] worker_update_frame [OF upd] show ?case by simp
qed

lemma settlementBody_frame:
  assumes "settlementBody send now taskId c d = (cs, Inr (d', st))"
  shows "submissions d' = submissions d \<and> options d' = options d \<and>
         tasks d' = map (\<lambda>t. if t_id t = taskId then t\<lparr>t_done := True, t_completedAt := Some now\<rparr> else t) (tasks d) \<and>
         (\<exists>row. taskResults d' = taskResults d @ [row] \<and> tr_task_id row = taskId) \<and>
         workerWithdrawals d' = workerWithdrawals d"
proof -
  from assms obtain d1 d2 row d4 rts where
    1: "task_update d taskId (\<lambda>t. t\<lparr>t_done := True, t_completedAt := Some now\<rparr>) = Inr d1"
    and 2: "taskResult_create d1 taskId = Inr (d2, row)"
    and 3: "distributeRewards send (fold (optionResult_create (tr_id row)) (results c) d2) [] []
              (workerRewards c) = (cs, Inr (d4, rts))"
    and 4: "d' = d4"
    by (auto simp: settlementBody_def Let_def split: sum.splits prod.splits)
  from task_update_frame [OF 1] taskResult_create_frame [OF 2]
    fold_optionResult_create_frame [of "tr_id row" "results c" d2]
    distributeRewards_frame [OF 3] 4
  show ?thesis by simp
qed

section \<open>Settlement is not repeated\<close>

lemma find_map_update:
  "(\<And>t. t_id (f t) = t_id t) \<Longrightarrow>
   find (\<lambda>t. t_id t = k) (map (\<lambda>t. if t_id t = k then f t else t) ts) =
   map_option f (find (\<lambda>t. t_id t = k) ts)"
  by (induction ts) simp_all

lemma calculateConsensus_after_done:
  assumes "tasks d' = map (\<lambda>t. if t_id t = taskId then t\<lparr>t_done := True, t_completedAt := Some now\<rparr> else t) (tasks d)"
    and "submissions d' = submissions d" and "options d' = options d"
  shows "calculateConsensus e d' taskId = calculateConsensus e d taskId"
proof -
  have "find (\<lambda>t. t_id t = taskId) (tasks d') =
        map_option (\<lambda>t. t\<lparr>t_done := True, t_completedAt := Some now\<rparr>)
          (find (\<lambda>t. t_id t = taskId) (tasks d))"
    unfolding assms(1) by (rule find_map_update) simp
  moreover have "taskSubmissions d' taskId = taskSubmissions d taskId"
    "taskOptions d' taskId = taskOptions d taskId"
    using assms(2,3) by (simp_all add: taskSubmissions_def taskOptions_def)
  ultimately show ?thesis
    by (cases "find (\<lambda>t. t_id t = taskId) (tasks d)")
       (simp_all add: calculateConsensus_def checkTaskCompletion_def task_findUnique_def Let_def
          calculateWorkerRewards_def rewardVoters_def)
qed

lemma processTaskCompletion_settled:
  assumes "\<exists>r \<in> set (taskResults d). tr_task_id r = taskId"
  shows "calls (processTaskCompletion e send now d taskId) = [] \<and>
         store (processTaskCompletion e send now d taskId) = d \<and>
         (case calculateConsensus e d taskId of
            Inl err \<Rightarrow> returned (processTaskCompletion e send now d taskId) = Inl err
          | Inr c \<Rightarrow> returned (processTaskCompletion e send now d taskId) = Inl P2002)"
proof (cases "calculateConsensus e d taskId")
  case (Inl err)
  then show ?thesis by (simp add: processTaskCompletion_def)
next
  case (Inr c)
  from calculateConsensus_InrD(1) [OF Inr] obtain t where
    "find (\<lambda>t. t_id t = taskId) (tasks d) = Some t" by blast
  then have "\<exists>t \<in> set (tasks d). t_id t = taskId" by (auto simp: find_Some_iff)
  then obtain d1 where
    1: "task_update d taskId (\<lambda>t. t\<lparr>t_done := True, t_completedAt := Some now\<rparr>) = Inr d1"
    by (simp add: task_update_def)
  from task_update_frame [OF 1] assms have "taskResult_create d1 taskId = Inl P2002"
    by (simp add: taskResult_create_def)
  with 1 have "settlementBody send now taskId c d = ([], Inl P2002)"
    by (simp add: settlementBody_def)
  with Inr show ?thesis by (simp add: processTaskCompletion_def transaction_def)
qed

text \<open>
  C2: after a call of \<open>processTaskCompletion\<close> that succeeded, every further call for
  the same task, whatever the dispatcher and the time, fails with the unique-constraint
  violation \<open>P2002\<close> of \<open>TaskResult.task_id\<close> (the spec's \<open>AlreadySettled\<close>); it
  makes no dispatcher call and leaves the whole store as it was: every worker balance,
  the task and the Result rows.
\<close>

theorem processTaskCompletion_second_call:
  assumes "processTaskCompletion e send now d taskId = \<lparr>calls = cs, store = d', returned = Inr st\<rparr>"
  shows "processTaskCompletion e send' now' d' taskId =
           \<lparr>calls = [], store = d', returned = Inl P2002\<rparr>"
proof -
  from assms obtain c where c: "calculateConsensus e d taskId = Inr c"
    by (cases "calculateConsensus e d taskId") (auto simp: processTaskCompletion_def)
  with assms have "settlementBody send now taskId c d = (cs, Inr (d', st))"
    by (auto simp: processTaskCompletion_def transaction_def split: prod.splits sum.splits)
  from settlementBody_frame [OF this] have
    fr: "tasks d' = map (\<lambda>t. if t_id t = taskId then t\<lparr>t_done := True, t_completedAt := Some now\<rparr> else t) (tasks d)"
      "submissions d' = submissions d" "options d' = options d"
    and res: "\<exists>r \<in> set (taskResults d'). tr_task_id r = taskId"
    by auto
  from calculateConsensus_after_done [OF fr] c
  have "calculateConsensus e d' taskId = Inr c" by simp
  with processTaskCompletion_settled [OF res, of e send' now'] show ?thesis
    by (cases "processTaskCompletion e send' now' d' taskId") simp
qed

text \<open>The settlement of the example ledger, computed.\<close>

lemma settlement0:
  "calls (processTaskCompletion env0 send0 7 ledger0 1) = [(''B'', 100), (''A'', 70)] \<and>
   store (processTaskCompletion env0 send0 7 ledger0 1) = ledger0_settled \<and>
   isl (returned (processTaskCompletion env0 send0 7 ledger0 1)) = False"
  by code_simp

theorem processTaskCompletion_second_call_witness:
  "processTaskCompletion env0 sendFailB 9 ledger0_settled 1 =
     \<lparr>calls = [], store = ledger0_settled, returned = Inl P2002\<rparr>"
proof -
  obtain st where "returned (processTaskCompletion env0 send0 7 ledger0 1) = Inr st"
    using settlement0 by (cases "returned (processTaskCompletion env0 send0 7 ledger0 1)") auto
  with settlement0 have "processTaskCompletion env0 send0 7 ledger0 1 =
      \<lparr>calls = [(''B'', 100), (''A'', 70)], store = ledger0_settled, returned = Inr st\<rparr>"
    by (cases "processTaskCompletion env0 send0 7 ledger0 1") simp
  then show ?thesis by (rule processTaskCompletion_second_call)
qed

section \<open>Settlement and the payout dispatcher\<close>










section \<open>Withdrawal\<close>

lemma fold_max_ge: "a \<le> fold max xs a \<and> (\<forall>x \<in> set xs. x \<le> fold max xs a)" for a :: nat
proof (induction xs arbitrary: a)
  case Nil
  then show ?case by simp
next
  case (Cons x xs)
  from Cons.IH [of "max x a"] show ?case by auto
qed

lemma fresh_id_fresh: "x \<in> set ids \<Longrightarrow> x < fresh_id ids"
  using fold_max_ge [of 0 ids] by (auto simp: fresh_id_def less_Suc_eq_le)

lemma map_update_absent:
  "\<forall>x \<in> set xs. key x \<noteq> k \<Longrightarrow> map (\<lambda>x. if key x = k then f x else x) xs = xs"
  by (induction xs) simp_all

lemma map_update_twice:
  "(\<And>x. key (f x) = key x) \<Longrightarrow>
   map (\<lambda>x. if key x = k then g x else x) (map (\<lambda>x. if key x = k then f x else x) xs) =
   map (\<lambda>x. if key x = k then g (f x) else x) xs"
  by (induction xs) simp_all


lemma map_update_keys:
  "(\<And>x. key (f x) = key x) \<Longrightarrow>
   map key (map (\<lambda>x. if key x = k then f x else x) xs) = map key xs"
  by (induction xs) simp_all

lemma map_update_has_key:
  "(\<And>x. key (f x) = key x) \<Longrightarrow>
   (\<exists>x \<in> set (map (\<lambda>x. if key x = k then f x else x) xs). key x = j) \<longleftrightarrow>
   (\<exists>x \<in> set xs. key x = j)"
  by (induction xs) simp_all

lemma beginWithdrawal_ok:
  assumes "\<exists>w \<in> set (workers d). w_id w = workerId"
  shows "transaction d (beginWithdrawal workerId X) =
     \<lparr>calls = [],
      store = d\<lparr>workers := map (\<lambda>w. if w_id w = workerId
                                   then w\<lparr>w_pending_amount := w_pending_amount w - X,
                                          w_locked_amount := w_locked_amount w + X\<rparr>
                                   else w) (workers d),
               workerWithdrawals := workerWithdrawals d @ [processingRow d workerId X]\<rparr>,
      returned = Inr (processingRow d workerId X)\<rparr>"
  using assms
  by (simp add: transaction_def beginWithdrawal_def worker_update_def workerWithdrawal_create_def
      processingRow_def Let_def)

lemma withdrawal_update_last:
  assumes "ww_id row = fresh_id (map ww_id rows)"
  shows "map (\<lambda>x. if ww_id x = ww_id row then f x else x) (rows @ [row]) = rows @ [f row]"
proof -
  have "\<forall>x \<in> set rows. ww_id x \<noteq> ww_id row"
    using fresh_id_fresh [of _ "map ww_id rows"] assms by fastforce
  then show ?thesis by (simp add: map_update_absent)
qed


lemma worker_findUnique_SomeD:
  "worker_findUnique d workerId = Some w \<Longrightarrow> w \<in> set (workers d) \<and> w_id w = workerId"
  by (auto simp: worker_findUnique_def find_Some_iff)



section \<open>The shipped dispatcher\<close>

lemma settle_after_begin_ok:
  assumes "\<exists>w \<in> set (workers d). w_id w = workerId"
    and "send 0 (w_address w) X = Inr sig"
  shows "settleWithdrawal send now (store (transaction d (beginWithdrawal workerId X)))
           workerId w (processingRow d workerId X) X =
         \<lparr>calls = [(w_address w, X)],
          store = d\<lparr>workers := map (\<lambda>w. if w_id w = workerId
                                       then w\<lparr>w_pending_amount := w_pending_amount w - X\<rparr>
                                       else w) (workers d),
                   workerWithdrawals := workerWithdrawals d @
                     [(processingRow d workerId X)\<lparr>ww_signature := sig, ww_status := Success,
                                                   ww_processedAt := Some now\<rparr>]\<rparr>,
          returned = PayoutSuccess200 (ww_id (processingRow d workerId X)) X\<rparr>"
proof -
  let ?row = "processingRow d workerId X"
  let ?debit = "\<lambda>w. w\<lparr>w_pending_amount := w_pending_amount w - X,
                                          w_locked_amount := w_locked_amount w + X\<rparr>"
  let ?unlock = "\<lambda>w. w\<lparr>w_locked_amount := w_locked_amount w - X\<rparr>"
  let ?paid = "?row\<lparr>ww_signature := sig, ww_status := Success, ww_processedAt := Some now\<rparr>"
  let ?d2 = "d\<lparr>workers := map (\<lambda>w. if w_id w = workerId then ?debit w else w) (workers d),
               workerWithdrawals := workerWithdrawals d @ [?row]\<rparr>"
  let ?d3 = "d\<lparr>workers := map (\<lambda>w. if w_id w = workerId then ?debit w else w) (workers d),
               workerWithdrawals := workerWithdrawals d @ [?paid]\<rparr>"
  have st: "store (transaction d (beginWithdrawal workerId X)) = ?d2"
    using beginWithdrawal_ok [OF assms(1), of X] by simp
  have rid: "ww_id ?row = fresh_id (map ww_id (workerWithdrawals d))"
    by (simp add: processingRow_def)
  have 1: "workerWithdrawal_update ?d2 (ww_id ?row)
             (\<lambda>x. x\<lparr>ww_signature := sig, ww_status := Success, ww_processedAt := Some now\<rparr>) = Inr ?d3"
    using withdrawal_update_last [OF rid, of "\<lambda>x. x\<lparr>ww_signature := sig, ww_status := Success, ww_processedAt := Some now\<rparr>"]
    by (simp add: workerWithdrawal_update_def)
  have upd: "map (\<lambda>w. if w_id w = workerId then ?unlock w else w)
                (map (\<lambda>w. if w_id w = workerId then ?debit w else w) (workers d)) =
             map (\<lambda>w. if w_id w = workerId then w\<lparr>w_pending_amount := w_pending_amount w - X\<rparr> else w)
                (workers d)"
    by (subst map_update_twice) simp_all
  have ex2: "\<exists>w \<in> set (map (\<lambda>w. if w_id w = workerId then ?debit w else w) (workers d)). w_id w = workerId"
    using assms(1) by (subst map_update_has_key) simp_all
  have 2: "worker_update ?d3 workerId ?unlock =
           Inr (d\<lparr>workers := map (\<lambda>w. if w_id w = workerId
                                       then w\<lparr>w_pending_amount := w_pending_amount w - X\<rparr>
                                       else w) (workers d),
                   workerWithdrawals := workerWithdrawals d @ [?paid]\<rparr>)"
    using ex2 upd by (simp add: worker_update_def)
  have "settleWithdrawal send now ?d2 workerId w ?row X =
         \<lparr>calls = [(w_address w, X)],
          store = d\<lparr>workers := map (\<lambda>w. if w_id w = workerId
                                       then w\<lparr>w_pending_amount := w_pending_amount w - X\<rparr>
                                       else w) (workers d),
                   workerWithdrawals := workerWithdrawals d @ [?paid]\<rparr>,
          returned = PayoutSuccess200 (ww_id ?row) X\<rparr>"
    unfolding settleWithdrawal_def by (simp add: assms(2) 1 2 Let_def)
  then show ?thesis by (simp only: st)
qed

lemma payoutHandler_dispatch_ok:
  assumes "\<And>n a x. \<exists>sig. send n a x = Inr sig"
  shows "returned (payoutHandler send now d workerId amount) \<noteq> TransactionFailed500 \<and>
         returned (payoutHandler send now d workerId amount) \<noteq> PayoutProcessingFailed500 \<and>
         (\<forall>x \<in> set (workerWithdrawals (store (payoutHandler send now d workerId amount))).
            ww_status x = Failure \<longrightarrow> x \<in> set (workerWithdrawals d))"
proof (cases "worker_findUnique d workerId")
  case None
  then show ?thesis by (simp add: payoutHandler_def)
next
  case (Some w)
  from worker_findUnique_SomeD [OF Some]
  have ex: "\<exists>w \<in> set (workers d). w_id w = workerId" by blast
  define X where "X = (case amount of None \<Rightarrow> w_pending_amount w | Some a \<Rightarrow> a)"
  show ?thesis
  proof (cases "(case amount of None \<Rightarrow> False | Some a \<Rightarrow> a \<le> 0) \<or> X \<le> 0 \<or> w_pending_amount w < X")
    case True
    then show ?thesis using Some by (auto simp: payoutHandler_def Let_def X_def)
  next
    case False
    have begun: "returned (transaction d (beginWithdrawal workerId X)) = Inr (processingRow d workerId X)"
      using beginWithdrawal_ok [OF ex, of X] by simp
    from assms obtain sig where sig: "send 0 (w_address w) X = Inr sig" by blast
    have "payoutHandler send now d workerId amount =
          settleWithdrawal send now (store (transaction d (beginWithdrawal workerId X)))
            workerId w (processingRow d workerId X) X"
      unfolding payoutHandler_def using False Some begun
      by (simp add: X_def [symmetric] Let_def)
    with settle_after_begin_ok [where send = send and now = now, OF ex sig] show ?thesis
      by (auto simp: processingRow_def)
  qed
qed

lemma distributeRewards_no_PayoutFailed:
  assumes "\<And>n a x. send n a x \<noteq> Inl PayoutFailed"
  shows "distributeRewards send d cs acc rws = (cs', res) \<Longrightarrow> res \<noteq> Inl PayoutFailed"
proof (induction rws arbitrary: d cs acc)
  case Nil
  then show ?case by auto
next
  case (Cons rw rws)
  then show ?case using assms
    by (auto split: sum.splits option.splits simp: worker_update_def split: if_splits)
qed

lemma settlementBody_no_PayoutFailed:
  assumes "\<And>n a x. send n a x \<noteq> Inl PayoutFailed"
  shows "snd (settlementBody send now taskId c d) \<noteq> Inl PayoutFailed"
proof (cases "task_update d taskId (\<lambda>t. t\<lparr>t_done := True, t_completedAt := Some now\<rparr>)")
  case (Inl err)
  then have "err = P2025" by (auto simp: task_update_def split: if_splits)
  with Inl show ?thesis by (simp add: settlementBody_def)
next
  case d1: (Inr d1)
  show ?thesis
  proof (cases "taskResult_create d1 taskId")
    case (Inl err)
    then have "err = P2002" by (auto simp: taskResult_create_def Let_def split: if_splits)
    with Inl d1 show ?thesis by (simp add: settlementBody_def)
  next
    case (Inr p)
    obtain d2 row where p: "p = (d2, row)" by (cases p)
    obtain cs res where loop:
      "distributeRewards send (fold (optionResult_create (tr_id row)) (results c) d2) [] []
         (workerRewards c) = (cs, res)"
      by (cases "distributeRewards send (fold (optionResult_create (tr_id row)) (results c) d2) [] []
         (workerRewards c)")
    from distributeRewards_no_PayoutFailed [OF assms loop] have "res \<noteq> Inl PayoutFailed" .
    with d1 Inr p loop show ?thesis
      by (auto simp: settlementBody_def split: sum.splits prod.splits)
  qed
qed

lemma processTaskCompletion_no_PayoutFailed:
  assumes "\<And>n a x. send n a x \<noteq> Inl PayoutFailed"
  shows "returned (processTaskCompletion e send now d taskId) \<noteq> Inl PayoutFailed"
proof (cases "calculateConsensus e d taskId")
  case (Inl err)
  then have "err = TaskNotFound \<or> err = NotEnoughSubmissions"
    by (auto simp: calculateConsensus_def checkTaskCompletion_def Let_def
        split: option.splits sum.splits if_splits)
  with Inl show ?thesis by (auto simp: processTaskCompletion_def)
next
  case (Inr c)
  obtain cs res where body: "settlementBody send now taskId c d = (cs, res)"
    by (cases "settlementBody send now taskId c d")
  with settlementBody_no_PayoutFailed [where send = send and now = now and taskId = taskId
      and c = c and d = d, OF assms]
  have "res \<noteq> Inl PayoutFailed" by simp
  with body show ?thesis
    by (auto simp: processTaskCompletion_def Inr transaction_def split: sum.splits prod.splits)
qed

text \<open>
  C10: the shipped dispatcher \<open>sendReward\<close> returns a reference for every wallet
  address and amount, whatever the encoder and the random bytes. With it, the payout
  handler never answers "Transaction failed" and never leaves a new withdrawal row in
  state \<open>Failure\<close>, and \<open>processTaskCompletion\<close> never throws \<open>PayoutFailed\<close>.
\<close>

theorem sendReward_never_fails:
  "(\<exists>sig. sendReward bs58 rnd n workerAddress amount = Inr sig) \<and>
   returned (payoutHandler (sendReward bs58 rnd) now d workerId requested) \<noteq> TransactionFailed500 \<and>
   (\<forall>x \<in> set (workerWithdrawals (store (payoutHandler (sendReward bs58 rnd) now d workerId requested))).
      ww_status x = Failure \<longrightarrow> x \<in> set (workerWithdrawals d)) \<and>
   returned (processTaskCompletion e (sendReward bs58 rnd) now d taskId) \<noteq> Inl PayoutFailed"
proof -
  have ok: "\<exists>sig. sendReward bs58 rnd n a x = Inr sig" for n a x
    by (simp add: sendReward_def)
  then have never: "sendReward bs58 rnd n a x \<noteq> Inl PayoutFailed" for n a x
    by (simp add: sendReward_def)
  from ok payoutHandler_dispatch_ok [where send = "sendReward bs58 rnd", OF ok]
    processTaskCompletion_no_PayoutFailed [where send = "sendReward bs58 rnd", OF never]
  show ?thesis by blast
qed

theorem sendReward_never_fails_witness:
  "sendReward (\<lambda>bytes. ''sig'') (\<lambda>n i. 0) 0 ''A'' 500 = Inr ''sig'' \<and>
   returned (payoutHandler send0 9 ledger0 1 (Some 500)) = PayoutSuccess200 1 500 \<and>
   returned (processTaskCompletion env0 send0 7 ledger0 1) \<noteq> Inl PayoutFailed"
proof -
  have "returned (payoutHandler send0 9 ledger0 1 (Some 500)) = PayoutSuccess200 1 500"
    by code_simp
  with sendReward_never_fails [where ?bs58.0 = "\<lambda>bytes. ''sig''" and rnd = "\<lambda>n i. 0" and n = 0
      and workerAddress = "''A''" and amount = 500 and now = 7 and d = ledger0 and e = env0
      and taskId = 1]
  show ?thesis by (simp add: send0_def sendReward_def)
qed

section \<open>Duplicate submissions\<close>

lemma getNextTask_SomeD:
  assumes "getNextTask d workerId = Some tw"
  shows "tw_task tw \<in> set (tasks d)" and "\<not> t_done (tw_task tw)"
    and "\<not> (\<exists>s \<in> set (submissions d). s_task_id s = t_id (tw_task tw) \<and> s_worker_id s = workerId)"
    and "tw_options tw = taskOptions d (t_id (tw_task tw))"
proof -
  let ?open = "filter (\<lambda>t. \<not> t_done t \<and>
                           \<not> (\<exists>s \<in> set (submissions d).
                                 s_task_id s = t_id t \<and> s_worker_id s = workerId)) (tasks d)"
  from assms obtain t rest where srt: "sort_key t_createdAt ?open = t # rest"
    and tw: "tw = \<lparr>tw_task = t, tw_submissions = taskSubmissions d (t_id t),
                tw_options = taskOptions d (t_id t)\<rparr>"
    by (auto simp: getNextTask_def split: list.splits)
  have "t \<in> set (sort_key t_createdAt ?open)" unfolding srt by simp
  then have "t \<in> set ?open" by simp
  with tw show "tw_task tw \<in> set (tasks d)" and "\<not> t_done (tw_task tw)"
    and "\<not> (\<exists>s \<in> set (submissions d). s_task_id s = t_id (tw_task tw) \<and> s_worker_id s = workerId)"
    and "tw_options tw = taskOptions d (t_id (tw_task tw))"
    by auto
qed

lemma submissionBody_duplicate:
  assumes "\<exists>s \<in> set (submissions d). s_task_id s = taskId \<and> s_worker_id s = workerId"
  shows "transaction d (submissionBody workerId taskId selection (Some amount)) =
           \<lparr>calls = [], store = d, returned = Inl P2002\<rparr>"
  using assms by (simp add: transaction_def submissionBody_def submission_create_def)

lemma submissionBody_store:
  "store (transaction d (submissionBody workerId taskId selection baseReward)) = d \<or>
   (\<exists>row d'. store (transaction d (submissionBody workerId taskId selection baseReward)) = d' \<and>
      submissions d' = submissions d @ [row] \<and> submissionKey row = (taskId, workerId) \<and>
      \<not> (\<exists>s \<in> set (submissions d). s_task_id s = taskId \<and> s_worker_id s = workerId))"
proof (cases baseReward)
  case None
  then show ?thesis by (simp add: transaction_def submissionBody_def)
next
  case (Some amount)
  show ?thesis
  proof (cases "\<exists>s \<in> set (submissions d). s_task_id s = taskId \<and> s_worker_id s = workerId")
    case True
    then show ?thesis using submissionBody_duplicate [of d taskId workerId selection amount] Some
      by simp
  next
    case False
    then show ?thesis using Some
      by (auto simp: transaction_def submissionBody_def submission_create_def Let_def
          worker_update_def submissionKey_def split: sum.splits)
  qed
qed

lemma submissionHandler_store:
  "fst (submissionHandler d workerId taskId selection) = d \<or>
   (\<exists>baseReward. fst (submissionHandler d workerId taskId selection) =
      store (transaction d (submissionBody workerId taskId selection baseReward)))"
  by (auto simp: submissionHandler_def Let_def split: option.splits sum.splits)

text \<open>
  C8, as stated, fails in one part: the second submission does not fail with a
  constraint violation. Worker 1 has voted on task 1 of the example ledger; the second
  submission is answered "Invalid task ID or task not available", not "You have already
  submitted for this task" (the answer to \<open>P2002\<close>).
\<close>

theorem duplicate_submission_not_P2002_counterexample:
  "submissionHandler ledger0 1 1 2 = (ledger0, InvalidTask400)"
  by code_simp

text \<open>
  C8, amended: the handler keeps at most one submission per (task, worker) pair. A
  second submission by a worker for a task is rejected without any write: no second
  vote, the same number of submissions, no second credit. The handler rejects it at
  its \<open>getNextTask\<close> check with 400 "Invalid task ID or task not available"; the
  insert-and-credit transaction, were it reached (a concurrent duplicate), fails as a
  whole with the unique-constraint violation \<open>P2002\<close> and leaves the store unchanged.
\<close>

theorem duplicate_submission:
  "(distinct (map submissionKey (submissions d)) \<longrightarrow>
      distinct (map submissionKey (submissions (fst (submissionHandler d workerId taskId selection))))) \<and>
   ((\<exists>s \<in> set (submissions d). s_task_id s = taskId \<and> s_worker_id s = workerId) \<longrightarrow>
      submissionHandler d workerId taskId selection = (d, InvalidTask400) \<and>
      transaction d (submissionBody workerId taskId selection (Some amount)) =
        \<lparr>calls = [], store = d, returned = Inl P2002\<rparr>)"
proof (intro conjI impI)
  assume dist: "distinct (map submissionKey (submissions d))"
  from submissionHandler_store [of d workerId taskId selection]
  show "distinct (map submissionKey (submissions (fst (submissionHandler d workerId taskId selection))))"
  proof
    assume "fst (submissionHandler d workerId taskId selection) = d"
    with dist show ?thesis by simp
  next
    assume "\<exists>baseReward. fst (submissionHandler d workerId taskId selection) =
      store (transaction d (submissionBody workerId taskId selection baseReward))"
    then obtain baseReward where st: "fst (submissionHandler d workerId taskId selection) =
      store (transaction d (submissionBody workerId taskId selection baseReward))" by blast
    from submissionBody_store [of d workerId taskId selection baseReward]
    show ?thesis
    proof
      assume "store (transaction d (submissionBody workerId taskId selection baseReward)) = d"
      with dist st show ?thesis by simp
    next
      assume "\<exists>row d'. store (transaction d (submissionBody workerId taskId selection baseReward)) = d' \<and>
        submissions d' = submissions d @ [row] \<and> submissionKey row = (taskId, workerId) \<and>
        \<not> (\<exists>s \<in> set (submissions d). s_task_id s = taskId \<and> s_worker_id s = workerId)"
      then obtain row where
        subs: "submissions (store (transaction d (submissionBody workerId taskId selection baseReward)))
                 = submissions d @ [row]"
        and key: "submissionKey row = (taskId, workerId)"
        and new: "\<not> (\<exists>s \<in> set (submissions d). s_task_id s = taskId \<and> s_worker_id s = workerId)"
        by blast
      from new key have "submissionKey row \<notin> set (map submissionKey (submissions d))"
        by (auto simp: submissionKey_def)
      with dist subs st show ?thesis by simp
    qed
  qed
next
  assume dup: "\<exists>s \<in> set (submissions d). s_task_id s = taskId \<and> s_worker_id s = workerId"
  show "submissionHandler d workerId taskId selection = (d, InvalidTask400)"
  proof (cases "getNextTask d workerId")
    case None
    then show ?thesis by (simp add: submissionHandler_def)
  next
    case (Some tw)
    from getNextTask_SomeD(3) [OF Some] dup have "t_id (tw_task tw) \<noteq> taskId" by auto
    with Some show ?thesis by (simp add: submissionHandler_def)
  qed
  from dup show "transaction d (submissionBody workerId taskId selection (Some amount)) =
        \<lparr>calls = [], store = d, returned = Inl P2002\<rparr>"
    by (rule submissionBody_duplicate)
qed

text \<open>The vote of worker 2 on the example ledger, computed.\<close>

lemma first_submission:
  "submissionHandler ledger1 2 1 1 =
     (ledger0, SubmissionCreated200
        \<lparr>s_id = 2, s_option_id = 1, s_worker_id = 2, s_task_id = 1, s_amount = 500\<rparr> True)"
  by code_simp

theorem duplicate_submission_witness:
  "fst (submissionHandler ledger1 2 1 1) = ledger0 \<and>
   submissionHandler ledger0 2 1 1 = (ledger0, InvalidTask400) \<and>
   transaction ledger0 (submissionBody 2 1 1 (Some 500)) =
     \<lparr>calls = [], store = ledger0, returned = Inl P2002\<rparr> \<and>
   distinct (map submissionKey (submissions ledger0))"
proof -
  have dup: "\<exists>s \<in> set (submissions ledger0). s_task_id s = 1 \<and> s_worker_id s = 2"
    by (simp add: ledger0_def)
  have dist: "distinct (map submissionKey (submissions ledger1))"
    by (simp add: ledger1_def submissionKey_def)
  from duplicate_submission [where d = ledger1 and workerId = 2 and taskId = 1 and selection = 1,
        THEN conjunct1, rule_format, OF dist]
    duplicate_submission [where d = ledger0 and workerId = 2 and taskId = 1 and selection = 1
        and amount = 500, THEN conjunct2, rule_format, OF dup]
  show ?thesis unfolding first_submission by simp
qed

end
